theory Spec2Isabelle
  imports Complex_Main
begin

section \<open>The Philips Hue adapter (philips-hue-adapter.js)\<close>

text \<open>
  The adapter is a single JavaScript file built from promise chains. Every function of the
  source runs to completion on the one task queue; a chain is suspended exactly where it
  waits for the network, the storage or a timer. The embedding follows that shape:

  \<^item> the fields of the classes are records;
  \<^item> every call that leaves the program (\<open>fetch\<close>, \<open>storage.*\<close>, \<open>setTimeout\<close>,
    \<open>console.*\<close>, \<open>handleDeviceAdded\<close>) is appended to a trace of effects, in the order
    the source issues it;
  \<^item> every suspended chain is an entry of a list of pending operations, and the handler
    that the source attaches with \<open>.then\<close>/\<open>.catch\<close> is the function that the matching
    completion event runs;
  \<^item> a rejected promise is a value (\<open>Inl reason\<close>), so that every \<open>Promise.reject\<close>,
    every thrown \<open>TypeError\<close> and every failed request is a branch of the model;
  \<^item> \<open>Date.now()\<close> is an argument of the task that reads it.

  The package \<open>color\<close> and the base classes \<open>Adapter\<close>, \<open>Device\<close> and \<open>Property\<close> are
  not part of the file. The colour conversions are a parameter of the model. So is the
  arithmetic of the language: a number of the source is a double, a finite double is a
  real number, and the rounded product and the rounded quotient of two doubles are
  parameters, not the exact product and quotient.
\<close>

subsection \<open>Values\<close>

text \<open>A value that the source stores in a property or sends in a payload.\<close>

datatype jsval = JBool bool | JNum int | JStr string

text \<open>
  \<open>this.username\<close>: \<open>null\<close> after construction, a string once paired, \<open>undefined\<close>
  when a bridge answers with a success object that has no username.
\<close>

datatype credential = Null | Undefined | Username string

text \<open>JavaScript truthiness of a credential: the empty string is falsy.\<close>

fun truthy :: "credential \<Rightarrow> bool" where
  "truthy Null = False"
| "truthy Undefined = False"
| "truthy (Username u) = (u \<noteq> [])"

text \<open>String concatenation with a credential (\<open>'...' + this.username\<close>).\<close>

fun toString :: "credential \<Rightarrow> string" where
  "toString Null = ''null''"
| "toString Undefined = ''undefined''"
| "toString (Username u) = u"

text \<open>
  The object stored under the storage key: bridge id to credential. A bridge id is the
  serial number that the host found for the bridge; for such keys the object is a finite
  map.
\<close>

type_synonym table = "string \<rightharpoonup> credential"

definition THING_TYPE_ON_OFF_COLOR_LIGHT :: string where
  "THING_TYPE_ON_OFF_COLOR_LIGHT = ''onOffColorLight''"

definition KNOWN_BRIDGE_USERNAMES :: string where
  "KNOWN_BRIDGE_USERNAMES = ''PhilipsHueAdapter.knownBridgeUsernames''"

subsection \<open>The colour package and the arithmetic of doubles\<close>

text \<open>
  What \<open>Color(x)\<close> answers to \<open>hue()\<close>, \<open>saturationv()\<close> and \<open>value()\<close>: finite
  doubles.
\<close>

record color =
  color_hue :: real
  color_saturationv :: real
  color_value :: real

text \<open>
  What the source takes from outside. \<open>dmul x y\<close> is the double \<open>x * y\<close> and
  \<open>ddiv x y\<close> the double \<open>x / y\<close> of the language, each rounded as IEEE 754 prescribes.
  \<open>fromHsv h s v\<close> is \<open>Color({h, s, v}).hex()\<close>; \<open>parse x\<close> is \<open>Color(x)\<close>, and
  \<open>None\<close> when the constructor throws.
\<close>

record runtime =
  dmul :: "real \<Rightarrow> real \<Rightarrow> real"
  ddiv :: "real \<Rightarrow> real \<Rightarrow> real"
  fromHsv :: "real \<Rightarrow> real \<Rightarrow> real \<Rightarrow> string"
  parse :: "jsval \<Rightarrow> color option"

subsection \<open>Lights\<close>

text \<open>One entry of the answer to \<open>GET /api/<username>/lights\<close>.\<close>

record light_state =
  on :: bool
  hue :: int
  sat :: int
  bri :: int

record light_api =
  name :: string
  state :: light_state

text \<open>\<open>PhilipsHueDevice\<close>; \<open>properties\<close> is the \<open>Map\<close> of the base class.\<close>

record device =
  deviceId :: string
  lightId :: string
  deviceName :: string
  deviceType :: string
  properties :: "string \<rightharpoonup> jsval"

text \<open>
  The constructor (lines 55-75), without the call of \<open>handleDeviceAdded\<close>, which the
  caller records in the trace. \<open>light.state.hue / 65535 * 360\<close> is a quotient of doubles
  and then a product of doubles.
\<close>

definition PhilipsHueDevice :: "runtime \<Rightarrow> string \<Rightarrow> string \<Rightarrow> light_api \<Rightarrow> device" where
  "PhilipsHueDevice C did lid light =
     (let color = fromHsv C
            (dmul C (ddiv C (real_of_int (hue (state light))) 65535) 360)
            (dmul C (ddiv C (real_of_int (sat (state light))) 255) 100)
            (dmul C (ddiv C (real_of_int (bri (state light))) 255) 100)
      in \<lparr>deviceId = did, lightId = lid, deviceName = name light,
          deviceType = THING_TYPE_ON_OFF_COLOR_LIGHT,
          properties = [''on'' \<mapsto> JBool (on (state light)), ''color'' \<mapsto> JStr color]\<rparr>)"

text \<open>
  What \<open>notifyPropertyChanged\<close> does: it throws, it warns and returns, or it calls
  \<open>adapter.sendProperties(lightId, properties)\<close>. The payload is the object literal, its
  fields in the order of the source.
\<close>

datatype notification = Throws | Unknown string | Send string "(string \<times> jsval) list"

text \<open>
  \<open>notifyPropertyChanged\<close> (lines 82-114). The call of the base class notifies the host
  and is not modelled. \<open>this.properties.get(k).value\<close> throws when the map has no \<open>k\<close>.
  \<open>Math.floor(color.hue() * 65535 / 360)\<close> is a product of doubles, then a quotient of
  doubles, then \<open>Math.floor\<close>, which on a finite double is the floor of that real number.
\<close>

definition notifyPropertyChanged :: "runtime \<Rightarrow> device \<Rightarrow> string \<Rightarrow> notification" where
  "notifyPropertyChanged C d pname =
     (if pname = ''color'' then
        (case properties d ''color'' of
           None \<Rightarrow> Throws
         | Some v \<Rightarrow>
            (case parse C v of
               None \<Rightarrow> Throws
             | Some color \<Rightarrow>
                 Send (lightId d)
                   [(''hue'', JNum \<lfloor>ddiv C (dmul C (color_hue color) 65535) 360\<rfloor>),
                    (''sat'', JNum \<lfloor>ddiv C (dmul C (color_saturationv color) 255) 100\<rfloor>),
                    (''bri'', JNum \<lfloor>ddiv C (dmul C (color_value color) 255) 100\<rfloor>)]))
      else if pname = ''on'' then
        (case properties d ''color'' of
           None \<Rightarrow> Throws
         | Some v \<Rightarrow>
            (case parse C v of
               None \<Rightarrow> Throws
             | Some color \<Rightarrow>
                (case properties d ''on'' of
                   None \<Rightarrow> Throws
                 | Some b \<Rightarrow>
                     Send (lightId d)
                       [(''on'', b),
                        (''hue'', JNum \<lfloor>ddiv C (dmul C (color_hue color) 65535) 360\<rfloor>),
                        (''sat'', JNum \<lfloor>ddiv C (dmul C (color_saturationv color) 255) 100\<rfloor>),
                        (''bri'', JNum \<lfloor>ddiv C (dmul C (color_value color) 255) 100\<rfloor>)])))
      else Unknown pname)"

subsection \<open>The adapter and its surroundings\<close>

text \<open>The fields of \<open>PhilipsHueAdapter\<close>; \<open>lights\<close> is the object \<open>this.lights\<close>.\<close>

record adapter =
  username :: credential
  bridgeId :: string
  bridgeIp :: string
  pairing :: bool
  pairingEnd :: int
  lights :: "string \<rightharpoonup> device"

text \<open>Why a promise is rejected; \<open>Message\<close> carries the string literals of the source.\<close>

datatype reason =
    Message string
  | BridgeError string
  | TypeError
  | FetchError
  | BodyError
  | StorageError

text \<open>Every call that leaves the program.\<close>

datatype effect =
    AddAdapter
  | HttpPost string string
  | HttpGet string
  | HttpPut string "(string \<times> jsval) list"
  | StorageInit
  | StorageGetItem string
  | StorageSetItem string table
  | SetTimeout nat
  | ConsoleError reason
  | ConsoleWarn string
  | DeviceAdded device
  | UnhandledRejection reason

text \<open>
  A suspended chain. \<open>Boot\<close> is the chain of the constructor, \<open>Pairing\<close> the chain of
  \<open>attemptPairing\<close>; \<open>RetryTimer\<close> is \<open>setTimeout(this.attemptPairing.bind(this), 500)\<close>.
\<close>

datatype origin = Boot | Pairing

datatype pending =
    PairFetch
  | LightsFetch origin
  | StorageInitWait origin
  | StorageGetWait origin
  | StorageSetWait
  | RetryTimer
  | PutFetch

text \<open>
  The answer to a request: the request fails, reading the body (\<open>json()\<close>, \<open>text()\<close>)
  fails, or the body is read.
\<close>

datatype 'a fetched = FetchFailed | BodyFailed | Body 'a

text \<open>
  The first message of the answer to \<open>POST /api\<close>: it has a truthy \<open>error\<close>, or a
  \<open>success\<close> object (whose \<open>username\<close> may be missing), or neither.
\<close>

datatype msg = MsgError string | MsgSuccess credential | MsgOther

text \<open>
  The body of the answer: an array of messages, or a value without a first element (an
  object, a number, \<open>null\<close>), on which reading \<open>msg.error\<close> or \<open>reply.length\<close> throws.
\<close>

datatype pair_json = NonArray | Arr "msg list"

text \<open>A storage promise.\<close>

datatype 'a outcome = Rejects | Resolves 'a

text \<open>
  An entry of the lights answer is \<open>None\<close> when it has no \<open>state\<close> object, so that the
  constructor throws a \<open>TypeError\<close> on it. The list is in the order of \<open>for ... in\<close>.
\<close>

datatype response =
    PairResp "pair_json fetched"
  | LightsResp "(string \<times> light_api option) list fetched"
  | StorageInitResp "unit outcome"
  | StorageGetResp "table option outcome"
  | StorageSetResp "unit outcome"
  | TimerFired
  | PutResp "string fetched"

text \<open>What the host, the bridge, the storage and the timer do to the adapter.\<close>

datatype event =
    StartPairing int
  | CancelPairing
  | SetValue string string jsval
  | Settle nat response

text \<open>The adapter, its suspended chains and everything it has done so far.\<close>

record sys =
  ad :: adapter
  pend :: "pending list"
  trace :: "effect list"

definition emit :: "effect \<Rightarrow> sys \<Rightarrow> sys" where
  "emit e s = s\<lparr>trace := trace s @ [e]\<rparr>"

definition await :: "pending \<Rightarrow> sys \<Rightarrow> sys" where
  "await p s = s\<lparr>pend := pend s @ [p]\<rparr>"

subsection \<open>Pairing\<close>

definition PAIR_BODY :: string where
  "PAIR_BODY = ''{\"devicetype\":\"mozilla_gateway#PhilipsHueAdapter\"}''"

text \<open>
  The handler of \<open>.catch\<close> in \<open>attemptPairing\<close> (lines 178-184): the only place where
  the pairing flag and the deadline are read.
\<close>

definition catchPairing :: "int \<Rightarrow> reason \<Rightarrow> sys \<Rightarrow> sys" where
  "catchPairing now e s =
     (let s1 = emit (ConsoleError e) s
      in if pairing (ad s1) \<and> now < pairingEnd (ad s1)
         then await RetryTimer (emit (SetTimeout 500) s1)
         else s1)"

text \<open>\<open>discoverLights\<close> up to its request (lines 224-230).\<close>

definition discoverLights :: "origin \<Rightarrow> sys \<Rightarrow> reason + sys" where
  "discoverLights og s =
     (if \<not> truthy (username (ad s)) then Inl (Message ''missing username'')
      else Inr (await (LightsFetch og)
             (emit (HttpGet (''http://'' @ bridgeIp (ad s) @ ''/api/'' @
                      toString (username (ad s)) @ ''/lights'')) s)))"

text \<open>
  The first handler of \<open>attemptPairing\<close> (lines 165-167), run with the username that
  \<open>pair\<close> resolved with. A rejection of \<open>discoverLights\<close> goes to the \<open>.catch\<close>.
\<close>

definition onPaired :: "int \<Rightarrow> credential \<Rightarrow> sys \<Rightarrow> sys" where
  "onPaired now u s =
     (let s1 = s\<lparr>ad := (ad s)\<lparr>username := u\<rparr>\<rparr>
      in case discoverLights Pairing s1 of
           Inl e \<Rightarrow> catchPairing now e s1
         | Inr s2 \<Rightarrow> s2)"

text \<open>
  \<open>pair\<close> up to its request (lines 191-198): the known username, or \<open>None\<close> when the
  registration request has to be made.
\<close>

definition pair :: "sys \<Rightarrow> credential option" where
  "pair s = (if truthy (username (ad s)) then Some (username (ad s)) else None)"

text \<open>\<open>attemptPairing\<close> up to its first suspension.\<close>

definition attemptPairing :: "int \<Rightarrow> sys \<Rightarrow> sys" where
  "attemptPairing now s =
     (case pair s of
        Some u \<Rightarrow> onPaired now u s
      | None \<Rightarrow> await PairFetch
                 (emit (HttpPost (''http://'' @ bridgeIp (ad s) @ ''/api'') PAIR_BODY) s))"

text \<open>The handlers of \<open>pair\<close> on the answer of the bridge (lines 199-212).\<close>

definition pairReply :: "pair_json fetched \<Rightarrow> reason + credential" where
  "pairReply r =
     (case r of
        FetchFailed \<Rightarrow> Inl FetchError
      | BodyFailed \<Rightarrow> Inl BodyError
      | Body NonArray \<Rightarrow> Inl TypeError
      | Body (Arr []) \<Rightarrow> Inl (Message ''empty response from bridge'')
      | Body (Arr (MsgError e # _)) \<Rightarrow> Inl (BridgeError e)
      | Body (Arr (MsgOther # _)) \<Rightarrow> Inl TypeError
      | Body (Arr (MsgSuccess u # _)) \<Rightarrow> Inr u)"

text \<open>\<open>startPairing\<close> (lines 157-162) and \<open>cancelPairing\<close> (lines 215-217).\<close>

definition startPairing :: "int \<Rightarrow> int \<Rightarrow> sys \<Rightarrow> sys" where
  "startPairing now timeoutSeconds s =
     attemptPairing now
       (s\<lparr>ad := (ad s)\<lparr>pairing := True, pairingEnd := now + timeoutSeconds * 1000\<rparr>\<rparr>)"

definition cancelPairing :: "sys \<Rightarrow> sys" where
  "cancelPairing s = s\<lparr>ad := (ad s)\<lparr>pairing := False\<rparr>\<rparr>"

subsection \<open>Discovery\<close>

text \<open>
  The names that every object inherits from \<open>Object.prototype\<close>: \<open>this.lights[k]\<close> is
  truthy for them although \<open>this.lights\<close> is created empty.
\<close>

definition inherited :: "string list" where
  "inherited = [''constructor'', ''__defineGetter__'', ''__defineSetter__'',
     ''hasOwnProperty'', ''__lookupGetter__'', ''__lookupSetter__'', ''isPrototypeOf'',
     ''propertyIsEnumerable'', ''toString'', ''valueOf'', ''__proto__'', ''toLocaleString'']"

text \<open>The test \<open>if (this.lights[lightId])\<close> (line 235).\<close>

definition tracked :: "(string \<rightharpoonup> device) \<Rightarrow> string \<Rightarrow> bool" where
  "tracked ls k = (ls k \<noteq> None \<or> k \<in> set inherited)"

text \<open>
  The body of the loop for a light that is not tracked (lines 238-240): the constructor
  announces the device to the host, then the registry takes it.
\<close>

definition newLight :: "runtime \<Rightarrow> string \<Rightarrow> light_api \<Rightarrow> sys \<Rightarrow> sys" where
  "newLight C k l s =
     (let d = PhilipsHueDevice C (''philips-hue-'' @ bridgeId (ad s) @ ''-'' @ k) k l;
          s1 = emit (DeviceAdded d) s
      in s1\<lparr>ad := (ad s1)\<lparr>lights := (lights (ad s1))(k \<mapsto> d)\<rparr>\<rparr>)"

text \<open>
  The loop of \<open>discoverLights\<close> (lines 234-241). A throwing constructor ends the loop and
  rejects the promise; the lights added before it stay.
\<close>

fun addLights :: "runtime \<Rightarrow> (string \<times> light_api option) list \<Rightarrow> sys \<Rightarrow> reason option \<times> sys" where
  "addLights C [] s = (None, s)"
| "addLights C ((k, light) # rest) s =
     (if tracked (lights (ad s)) k then addLights C rest s
      else case light of
             None \<Rightarrow> (Some TypeError, s)
           | Some l \<Rightarrow> addLights C rest (newLight C k l s))"

text \<open>
  A rejection in the chain of \<open>og\<close>: the pairing chain has the \<open>.catch\<close> of
  \<open>attemptPairing\<close>; the constructor calls \<open>discoverLights\<close> without returning its
  promise, so nothing handles the rejection there.
\<close>

definition rejected :: "origin \<Rightarrow> int \<Rightarrow> reason \<Rightarrow> sys \<Rightarrow> sys" where
  "rejected og now e s =
     (case og of Pairing \<Rightarrow> catchPairing now e s | Boot \<Rightarrow> emit (UnhandledRejection e) s)"

text \<open>
  The handlers of \<open>discoverLights\<close> on the answer of the bridge (lines 230-242) and, in
  the pairing chain, the handler that follows it (lines 168-170).
\<close>

definition lightsReply ::
  "runtime \<Rightarrow> origin \<Rightarrow> int \<Rightarrow> (string \<times> light_api option) list fetched \<Rightarrow> sys \<Rightarrow> sys" where
  "lightsReply C og now r s =
     (case r of
        FetchFailed \<Rightarrow> rejected og now FetchError s
      | BodyFailed \<Rightarrow> rejected og now BodyError s
      | Body ls \<Rightarrow>
         (case addLights C ls s of
            (Some e, s1) \<Rightarrow> rejected og now e s1
          | (None, s1) \<Rightarrow>
             (case og of
                Boot \<Rightarrow> s1
              | Pairing \<Rightarrow> await (StorageInitWait Pairing) (emit StorageInit s1))))"

subsection \<open>The credential store\<close>

text \<open>The merge of lines 173-176.\<close>

definition merge :: "table option \<Rightarrow> string \<Rightarrow> credential \<Rightarrow> table" where
  "merge known b c = (case known of None \<Rightarrow> Map.empty | Some t \<Rightarrow> t)(b \<mapsto> c)"

text \<open>After \<open>storage.init()\<close>: lines 135-136 and 170-171.\<close>

definition storageInitDone :: "origin \<Rightarrow> int \<Rightarrow> unit outcome \<Rightarrow> sys \<Rightarrow> sys" where
  "storageInitDone og now r s =
     (case r of
        Rejects \<Rightarrow>
         (case og of
            Pairing \<Rightarrow> catchPairing now StorageError s
          | Boot \<Rightarrow> emit (ConsoleError StorageError) s)
      | Resolves _ \<Rightarrow> await (StorageGetWait og) (emit (StorageGetItem KNOWN_BRIDGE_USERNAMES) s))"

text \<open>After \<open>storage.getItem\<close> in the pairing chain (lines 172-177).\<close>

definition storageGetDone :: "int \<Rightarrow> table option outcome \<Rightarrow> sys \<Rightarrow> sys" where
  "storageGetDone now r s =
     (case r of
        Rejects \<Rightarrow> catchPairing now StorageError s
      | Resolves known \<Rightarrow>
          await StorageSetWait
            (emit (StorageSetItem KNOWN_BRIDGE_USERNAMES
                     (merge known (bridgeId (ad s)) (username (ad s)))) s))"

text \<open>After \<open>storage.setItem\<close> (lines 177-178).\<close>

definition storageSetDone :: "int \<Rightarrow> unit outcome \<Rightarrow> sys \<Rightarrow> sys" where
  "storageSetDone now r s =
     (case r of Rejects \<Rightarrow> catchPairing now StorageError s | Resolves _ \<Rightarrow> s)"

text \<open>After \<open>storage.getItem\<close> in the constructor (lines 137-150).\<close>

definition bootGetDone :: "table option outcome \<Rightarrow> sys \<Rightarrow> sys" where
  "bootGetDone r s =
     (case r of
        Rejects \<Rightarrow> emit (ConsoleError StorageError) s
      | Resolves None \<Rightarrow> emit (ConsoleError (Message ''no known bridges'')) s
      | Resolves (Some known) \<Rightarrow>
         (let u = (case known (bridgeId (ad s)) of None \<Rightarrow> Undefined | Some c \<Rightarrow> c)
          in if \<not> truthy u then emit (ConsoleError (Message ''no known username'')) s
             else (let s1 = s\<lparr>ad := (ad s)\<lparr>username := u\<rparr>\<rparr>
                   in case discoverLights Boot s1 of
                        Inl e \<Rightarrow> emit (UnhandledRejection e) s1
                      | Inr s2 \<Rightarrow> s2)))"

text \<open>The constructor (lines 123-136).\<close>

definition PhilipsHueAdapter :: "string \<Rightarrow> string \<Rightarrow> sys" where
  "PhilipsHueAdapter bid bip =
     \<lparr>ad = \<lparr>username = Null, bridgeId = bid, bridgeIp = bip, pairing = False,
             pairingEnd = 0, lights = Map.empty\<rparr>,
      pend = [StorageInitWait Boot],
      trace = [AddAdapter, StorageInit]\<rparr>"

subsection \<open>Pushing a state to the bridge\<close>

text \<open>\<open>sendProperties\<close> up to its request (lines 252-260).\<close>

definition sendProperties :: "string \<Rightarrow> (string \<times> jsval) list \<Rightarrow> sys \<Rightarrow> sys" where
  "sendProperties lid props s =
     await PutFetch
       (emit (HttpPut (''http://'' @ bridgeIp (ad s) @ ''/api/'' @ toString (username (ad s)) @
                ''/lights/'' @ lid @ ''/state'') props) s)"

text \<open>How a promise settles.\<close>

datatype 'a settled = Fulfilled 'a | Rejected reason

text \<open>
  The promise of \<open>fetch(...).then(res => res.text())\<close> (lines 255-263): rejected when
  the request or the reading of the body fails.
\<close>

definition putText :: "string fetched \<Rightarrow> string settled" where
  "putText r =
     (case r of
        FetchFailed \<Rightarrow> Rejected FetchError
      | BodyFailed \<Rightarrow> Rejected BodyError
      | Body t \<Rightarrow> Fulfilled t)"

text \<open>
  \<open>.catch(e => { console.error(e); })\<close> (lines 263-265): a rejection is logged and the
  promise is fulfilled with \<open>undefined\<close>; a fulfilled promise passes through.
\<close>

definition catchLog :: "'a settled \<Rightarrow> sys \<Rightarrow> 'a option settled \<times> sys" where
  "catchLog p s =
     (case p of
        Rejected e \<Rightarrow> (Fulfilled None, emit (ConsoleError e) s)
      | Fulfilled x \<Rightarrow> (Fulfilled (Some x), s))"

text \<open>How the promise that \<open>sendProperties\<close> returns settles (lines 261-265).\<close>

definition putReply :: "string fetched \<Rightarrow> sys \<Rightarrow> string option settled \<times> sys" where
  "putReply r s = catchLog (putText r) s"

text \<open>
  Modelled from the spec: \<open>setCachedValue\<close> of the base class \<open>Property\<close>, which is not
  in the file; the spec calls it the cached value of a typed property, so it stores the
  value it is given.
\<close>

definition setCachedValue :: "string \<Rightarrow> jsval \<Rightarrow> device \<Rightarrow> device" where
  "setCachedValue pname v d = d\<lparr>properties := (properties d)(pname \<mapsto> v)\<rparr>"

text \<open>
  \<open>setValue\<close> of the property \<open>pname\<close> of the light \<open>k\<close> (lines 36-42). The promise is
  resolved before \<open>notifyPropertyChanged\<close> runs, so an exception thrown there is dropped.
  The host can only call it on a property object that exists.
\<close>

definition setValue :: "runtime \<Rightarrow> string \<Rightarrow> string \<Rightarrow> jsval \<Rightarrow> sys \<Rightarrow> sys option" where
  "setValue C k pname v s =
     (case lights (ad s) k of
        None \<Rightarrow> None
      | Some d \<Rightarrow>
         (if properties d pname = None then None
          else (let d1 = setCachedValue pname v d;
                    s1 = s\<lparr>ad := (ad s)\<lparr>lights := (lights (ad s))(k \<mapsto> d1)\<rparr>\<rparr>
                in Some (case notifyPropertyChanged C d1 pname of
                           Throws \<Rightarrow> s1
                         | Unknown n \<Rightarrow> emit (ConsoleWarn n) s1
                         | Send lid props \<Rightarrow> sendProperties lid props s1))))"

subsection \<open>The task queue\<close>

text \<open>Removing the pending operation that has completed.\<close>

definition complete :: "nat \<Rightarrow> sys \<Rightarrow> sys" where
  "complete i s = s\<lparr>pend := take i (pend s) @ drop (Suc i) (pend s)\<rparr>"

text \<open>The handler that a completed operation runs; \<open>None\<close> when the answer does not fit it.\<close>

fun resume :: "runtime \<Rightarrow> int \<Rightarrow> pending \<Rightarrow> response \<Rightarrow> sys \<Rightarrow> sys option" where
  "resume C now PairFetch (PairResp r) s =
     Some (case pairReply r of Inl e \<Rightarrow> catchPairing now e s | Inr u \<Rightarrow> onPaired now u s)"
| "resume C now (LightsFetch og) (LightsResp r) s = Some (lightsReply C og now r s)"
| "resume C now (StorageInitWait og) (StorageInitResp r) s = Some (storageInitDone og now r s)"
| "resume C now (StorageGetWait Pairing) (StorageGetResp r) s = Some (storageGetDone now r s)"
| "resume C now (StorageGetWait Boot) (StorageGetResp r) s = Some (bootGetDone r s)"
| "resume C now StorageSetWait (StorageSetResp r) s = Some (storageSetDone now r s)"
| "resume C now RetryTimer TimerFired s = Some (attemptPairing now s)"
| "resume C now PutFetch (PutResp r) s = Some (snd (putReply r s))"
| "resume C now _ _ s = None"

text \<open>One task: \<open>now\<close> is what \<open>Date.now()\<close> returns while it runs.\<close>

fun step :: "runtime \<Rightarrow> int \<Rightarrow> event \<Rightarrow> sys \<Rightarrow> sys option" where
  "step C now (StartPairing timeoutSeconds) s = Some (startPairing now timeoutSeconds s)"
| "step C now CancelPairing s = Some (cancelPairing s)"
| "step C now (SetValue k pname v) s = setValue C k pname v s"
| "step C now (Settle i r) s =
     (if i < length (pend s) then resume C now (pend s ! i) r (complete i s) else None)"

fun run :: "runtime \<Rightarrow> (int \<times> event) list \<Rightarrow> sys \<Rightarrow> sys option" where
  "run C [] s = Some s"
| "run C ((now, e) # es) s =
     (case step C now e s of None \<Rightarrow> None | Some s1 \<Rightarrow> run C es s1)"

text \<open>The registration requests (\<open>POST /api\<close>) in a trace.\<close>

fun isPost :: "effect \<Rightarrow> bool" where
  "isPost (HttpPost _ _) = True"
| "isPost _ = False"

definition registrations :: "effect list \<Rightarrow> nat" where
  "registrations t = length (filter isPost t)"

subsection \<open>Observations on traces and sessions\<close>

text \<open>The devices that the constructor has announced, in order.\<close>

fun created :: "effect list \<Rightarrow> device list" where
  "created [] = []"
| "created (DeviceAdded d # t) = d # created t"
| "created (_ # t) = created t"

text \<open>How often a device was constructed for the light \<open>k\<close>.\<close>

definition timesCreated :: "string \<Rightarrow> effect list \<Rightarrow> nat" where
  "timesCreated k t = length (filter (\<lambda>d. lightId d = k) (created t))"

fun isSetItem :: "effect \<Rightarrow> bool" where
  "isSetItem (StorageSetItem _ _) = True"
| "isSetItem _ = False"

text \<open>The effects that one or more tasks have added to the trace.\<close>

definition issued :: "sys \<Rightarrow> sys \<Rightarrow> effect list" where
  "issued s s1 = drop (length (trace s)) (trace s1)"

text \<open>A task that adds no storage write.\<close>

definition quiet :: "sys \<Rightarrow> sys \<Rightarrow> bool" where
  "quiet s s1 = (\<exists>u. trace s1 = trace s @ u \<and> filter isSetItem u = [])"

text \<open>
  The events of a pairing session with a bridge that never grants a username: a retry
  timer fires, a registration request fails, the host cancels.
\<close>

fun failing :: "event \<Rightarrow> bool" where
  "failing (Settle i TimerFired) = True"
| "failing (Settle i (PairResp r)) = isl (pairReply r)"
| "failing CancelPairing = True"
| "failing _ = False"

text \<open>
  The registration requests issued by the tasks that run at or after the time \<open>d\<close>. An
  event that fits no pending operation cannot happen and is skipped.
\<close>

fun latePosts :: "runtime \<Rightarrow> int \<Rightarrow> (int \<times> event) list \<Rightarrow> sys \<Rightarrow> nat" where
  "latePosts C d [] s = 0"
| "latePosts C d ((now, e) # es) s =
     (case step C now e s of
        None \<Rightarrow> latePosts C d es s
      | Some s1 \<Rightarrow> (if d \<le> now then registrations (issued s s1) else 0) + latePosts C d es s1)"

text \<open>
  A session with one chain and no credential: nothing is pending, or the registration
  request is in flight, or the retry timer is waiting.
\<close>

definition inSession :: "sys \<Rightarrow> bool" where
  "inSession s = (\<not> truthy (username (ad s)) \<and>
     (pend s = [] \<or> pend s = [PairFetch] \<or> pend s = [RetryTimer]))"

definition budget :: "sys \<Rightarrow> nat" where
  "budget s = (if pend s = [RetryTimer] then 1 else 0)"

subsection \<open>Concrete inputs\<close>

text \<open>
  The values of the colour package for red, white and green, the colours of the examples.
  Every product and quotient that the examples compute has integer operands and an
  integer result below \<open>2 ^ 53\<close>; double arithmetic is exact there, so the sample
  computes them exactly.
\<close>

definition sampleRuntime :: runtime where
  "sampleRuntime =
     \<lparr>dmul = (\<lambda>x y. x * y),
      ddiv = (\<lambda>x y. x / y),
      fromHsv = (\<lambda>h s v. if h = 0 \<and> s = 100 \<and> v = 100 then ''#FF0000''
                          else if h = 0 \<and> s = 0 \<and> v = 100 then ''#FFFFFF''
                          else ''#000000''),
      parse = (\<lambda>x. if x = JStr ''#FF0000''
                       then Some \<lparr>color_hue = 0, color_saturationv = 100, color_value = 100\<rparr>
                     else if x = JStr ''#00FF00''
                       then Some \<lparr>color_hue = 120, color_saturationv = 100, color_value = 100\<rparr>
                     else None)\<rparr>"

definition redLamp :: light_api where
  "redLamp = \<lparr>name = ''Lamp'', state = \<lparr>on = False, hue = 0, sat = 255, bri = 255\<rparr>\<rparr>"

definition whiteLamp :: light_api where
  "whiteLamp = \<lparr>name = ''Desk'', state = \<lparr>on = True, hue = 0, sat = 0, bri = 255\<rparr>\<rparr>"

definition redDevice :: device where
  "redDevice = \<lparr>deviceId = ''philips-hue-b1-1'', lightId = ''1'', deviceName = ''Lamp'',
      deviceType = ''onOffColorLight'',
      properties = [''on'' \<mapsto> JBool False, ''color'' \<mapsto> JStr ''#FF0000'']\<rparr>"

text \<open>The adapter of the bridge \<open>b1\<close> right after its construction.\<close>

definition freshAdapter :: sys where
  "freshAdapter = PhilipsHueAdapter ''b1'' ''10.0.0.2''"

text \<open>The storage is empty: the constructor finds no username.\<close>

definition bootIdle :: "(int \<times> event) list" where
  "bootIdle = [(0, Settle 0 (StorageInitResp (Resolves ()))),
               (1, Settle 0 (StorageGetResp (Resolves None)))]"

definition idleSys :: sys where
  "idleSys =
     \<lparr>ad = \<lparr>username = Null, bridgeId = ''b1'', bridgeIp = ''10.0.0.2'', pairing = False,
             pairingEnd = 0, lights = Map.empty\<rparr>,
      pend = [],
      trace = [AddAdapter, StorageInit, StorageGetItem KNOWN_BRIDGE_USERNAMES,
               ConsoleError (Message ''no known bridges'')]\<rparr>"

text \<open>The storage knows the bridge: the constructor discovers one red lamp.\<close>

definition bootPaired :: "(int \<times> event) list" where
  "bootPaired = [(0, Settle 0 (StorageInitResp (Resolves ()))),
                 (1, Settle 0 (StorageGetResp (Resolves (Some [''b1'' \<mapsto> Username ''u1''])))),
                 (2, Settle 0 (LightsResp (Body [(''1'', Some redLamp)])))]"

definition pairedSys :: sys where
  "pairedSys =
     \<lparr>ad = \<lparr>username = Username ''u1'', bridgeId = ''b1'', bridgeIp = ''10.0.0.2'',
             pairing = False, pairingEnd = 0, lights = [''1'' \<mapsto> redDevice]\<rparr>,
      pend = [],
      trace = [AddAdapter, StorageInit, StorageGetItem KNOWN_BRIDGE_USERNAMES,
               HttpGet ''http://10.0.0.2/api/u1/lights'', DeviceAdded redDevice]\<rparr>"

text \<open>
  Pairing was started at 1000 for 30 seconds, the link button was not pressed, and the
  retry is waiting.
\<close>

definition buttonNotPressed :: response where
  "buttonNotPressed = PairResp (Body (Arr [MsgError ''link button not pressed'']))"

definition waitingSys :: sys where
  "waitingSys =
     \<lparr>ad = \<lparr>username = Null, bridgeId = ''b1'', bridgeIp = ''10.0.0.2'', pairing = True,
             pairingEnd = 31000, lights = Map.empty\<rparr>,
      pend = [RetryTimer],
      trace = [AddAdapter, StorageInit, StorageGetItem KNOWN_BRIDGE_USERNAMES,
               ConsoleError (Message ''no known bridges''),
               HttpPost ''http://10.0.0.2/api'' PAIR_BODY,
               ConsoleError (BridgeError ''link button not pressed''),
               SetTimeout 500]\<rparr>"

text \<open>
  Pairing was started at 1000 for one second, the request failed at 1999, one
  millisecond before the deadline, and the retry is waiting.
\<close>

definition lateSys :: sys where
  "lateSys =
     \<lparr>ad = \<lparr>username = Null, bridgeId = ''b1'', bridgeIp = ''10.0.0.2'', pairing = True,
             pairingEnd = 2000, lights = Map.empty\<rparr>,
      pend = [RetryTimer],
      trace = [AddAdapter, StorageInit, StorageGetItem KNOWN_BRIDGE_USERNAMES,
               ConsoleError (Message ''no known bridges''),
               HttpPost ''http://10.0.0.2/api'' PAIR_BODY,
               ConsoleError FetchError,
               SetTimeout 500]\<rparr>"

text \<open>A successful pairing of the idle adapter, up to the answer of \<open>getItem\<close>.\<close>

definition pairingRun :: "(int \<times> event) list" where
  "pairingRun =
     [(1000, StartPairing 30),
      (1100, Settle 0 (PairResp (Body (Arr [MsgSuccess (Username ''u1'')])))),
      (1200, Settle 0 (LightsResp (Body [(''1'', Some redLamp)]))),
      (1300, Settle 0 (StorageInitResp (Resolves ()))),
      (1400, Settle 0 (StorageGetResp (Resolves (Some [''b0'' \<mapsto> Username ''u0'']))))]"

text \<open>The paired adapter after the host has switched the red lamp on.\<close>

definition pushingSys :: sys where
  "pushingSys =
     \<lparr>ad = \<lparr>username = Username ''u1'', bridgeId = ''b1'', bridgeIp = ''10.0.0.2'',
             pairing = False, pairingEnd = 0,
             lights = [''1'' \<mapsto> redDevice\<lparr>properties :=
                         (properties redDevice)(''on'' \<mapsto> JBool True)\<rparr>]\<rparr>,
      pend = [PutFetch],
      trace = [AddAdapter, StorageInit, StorageGetItem KNOWN_BRIDGE_USERNAMES,
               HttpGet ''http://10.0.0.2/api/u1/lights'', DeviceAdded redDevice,
               HttpPut ''http://10.0.0.2/api/u1/lights/1/state''
                 [(''on'', JBool True), (''hue'', JNum 0), (''sat'', JNum 255),
                  (''bri'', JNum 255)]]\<rparr>"

text \<open>The pairing chain of \<open>pairingRun\<close> while it waits for the answer of \<open>getItem\<close>.\<close>

definition persistingSys :: sys where
  "persistingSys =
     \<lparr>ad = \<lparr>username = Username ''u1'', bridgeId = ''b1'', bridgeIp = ''10.0.0.2'',
             pairing = True, pairingEnd = 31000, lights = [''1'' \<mapsto> redDevice]\<rparr>,
      pend = [StorageGetWait Pairing],
      trace = [AddAdapter, StorageInit, StorageGetItem KNOWN_BRIDGE_USERNAMES,
               ConsoleError (Message ''no known bridges''),
               HttpPost ''http://10.0.0.2/api'' PAIR_BODY,
               HttpGet ''http://10.0.0.2/api/u1/lights'',
               DeviceAdded redDevice, StorageInit,
               StorageGetItem KNOWN_BRIDGE_USERNAMES]\<rparr>"

text \<open>The bridge lists the red lamp and a white one.\<close>

definition twoLamps :: "(string \<times> light_api option) list" where
  "twoLamps = [(''1'', Some redLamp), (''2'', Some whiteLamp)]"

text \<open>What follows the start at 1000 for one second when the bridge cannot be reached.\<close>

definition lateEvents :: "(int \<times> event) list" where
  "lateEvents = [(1999, Settle 0 (PairResp FetchFailed)), (2499, Settle 0 TimerFired),
                 (2600, Settle 0 (PairResp FetchFailed))]"

section \<open>Properties\<close>

subsection \<open>Evaluation\<close>

lemmas handlers = emit_def await_def complete_def catchPairing_def discoverLights_def onPaired_def
  pair_def attemptPairing_def pairReply_def startPairing_def cancelPairing_def rejected_def
  lightsReply_def storageInitDone_def storageGetDone_def storageSetDone_def bootGetDone_def
  PhilipsHueAdapter_def sendProperties_def putReply_def putText_def catchLog_def setValue_def setCachedValue_def
  newLight_def tracked_def inherited_def merge_def notifyPropertyChanged_def PhilipsHueDevice_def
  THING_TYPE_ON_OFF_COLOR_LIGHT_def Let_def

lemmas examples = sampleRuntime_def redLamp_def whiteLamp_def redDevice_def freshAdapter_def
  bootIdle_def idleSys_def bootPaired_def pairedSys_def buttonNotPressed_def waitingSys_def
  lateSys_def pairingRun_def pushingSys_def persistingSys_def twoLamps_def lateEvents_def

lemma run_append:
  "run C (es @ fs) s = (case run C es s of None \<Rightarrow> None | Some s1 \<Rightarrow> run C fs s1)"
  by (induction es arbitrary: s) (auto split: option.splits)

lemma reach_idle: "run sampleRuntime bootIdle freshAdapter = Some idleSys"
  by (simp add: examples handlers)

lemma reach_paired: "run sampleRuntime bootPaired freshAdapter = Some pairedSys"
  by (simp add: examples handlers)

lemma reach_waiting:
  "run sampleRuntime [(1000, StartPairing 30), (1100, Settle 0 buttonNotPressed)] idleSys =
     Some waitingSys"
  by (simp add: examples handlers)

lemma reach_late:
  "run sampleRuntime [(1000, StartPairing 1), (1999, Settle 0 (PairResp FetchFailed))] idleSys =
     Some lateSys"
  by (simp add: examples handlers)

subsection \<open>Traces and pending operations\<close>

lemma complete_simps:
  "ad (complete i s) = ad s" "trace (complete i s) = trace s"
  "pend (complete i s) = take i (pend s) @ drop (Suc i) (pend s)"
  by (simp_all add: complete_def)

lemma last_pending:
  assumes "i < length p"
  shows "(take i p @ drop (Suc i) p @ [x]) ! (length p - Suc 0) = x"
    and "take (length p - Suc 0) (take i p @ drop (Suc i) p @ [x]) = take i p @ drop (Suc i) p"
    and "drop (length p) (take i p @ drop (Suc i) p @ [x]) = []"
    and "length p - Suc 0 < length (take i p @ drop (Suc i) p @ [x])"
proof -
  have len: "length (take i p @ drop (Suc i) p) = length p - Suc 0" using assms by simp
  show "(take i p @ drop (Suc i) p @ [x]) ! (length p - Suc 0) = x"
    using nth_append_length[of "take i p @ drop (Suc i) p" x "[]"] len by simp
  show "take (length p - Suc 0) (take i p @ drop (Suc i) p @ [x]) = take i p @ drop (Suc i) p"
    using len by (metis append.assoc append_eq_conv_conj)
  show "drop (length p) (take i p @ drop (Suc i) p @ [x]) = []"
    using assms by simp
  show "length p - Suc 0 < length (take i p @ drop (Suc i) p @ [x])"
    using assms by simp
qed

lemma registrations_append: "registrations (t @ u) = registrations t + registrations u"
  by (simp add: registrations_def)

subsection \<open>The discovery loop\<close>

lemma created_append: "created (t @ u) = created t @ created u"
  by (induction t rule: created.induct) simp_all

lemma timesCreated_append: "timesCreated k (t @ u) = timesCreated k t + timesCreated k u"
  by (simp add: timesCreated_def created_append)

lemma newLight_simps:
  "pend (newLight C k l s) = pend s"
  "trace (newLight C k l s) =
     trace s @ [DeviceAdded (PhilipsHueDevice C (''philips-hue-'' @ bridgeId (ad s) @ ''-'' @ k) k l)]"
  "lights (ad (newLight C k l s)) =
     (lights (ad s))(k \<mapsto> PhilipsHueDevice C (''philips-hue-'' @ bridgeId (ad s) @ ''-'' @ k) k l)"
  "username (ad (newLight C k l s)) = username (ad s)"
  "bridgeId (ad (newLight C k l s)) = bridgeId (ad s)"
  "bridgeIp (ad (newLight C k l s)) = bridgeIp (ad s)"
  "pairing (ad (newLight C k l s)) = pairing (ad s)"
  "pairingEnd (ad (newLight C k l s)) = pairingEnd (ad s)"
  by (simp_all add: newLight_def emit_def Let_def)

lemma lightId_PhilipsHueDevice: "lightId (PhilipsHueDevice C i k l) = k"
  by (simp add: PhilipsHueDevice_def Let_def)

lemma addLights_fields:
  "pend (snd (addLights C ls s)) = pend s \<and>
   username (ad (snd (addLights C ls s))) = username (ad s) \<and>
   bridgeId (ad (snd (addLights C ls s))) = bridgeId (ad s) \<and>
   bridgeIp (ad (snd (addLights C ls s))) = bridgeIp (ad s) \<and>
   pairing (ad (snd (addLights C ls s))) = pairing (ad s) \<and>
   pairingEnd (ad (snd (addLights C ls s))) = pairingEnd (ad s)"
proof (induction ls arbitrary: s)
  case Nil
  then show ?case by simp
next
  case (Cons a rest)
  obtain k light where a: "a = (k, light)" by (cases a)
  show ?case
  proof (cases "tracked (lights (ad s)) k")
    case True
    with Cons.IH[of s] a show ?thesis by simp
  next
    case False
    show ?thesis
    proof (cases light)
      case None
      with False a show ?thesis by simp
    next
      case (Some l)
      with False a Cons.IH[of "newLight C k l s"] show ?thesis
        by (simp add: newLight_simps)
    qed
  qed
qed


lemma addLights_keeps:
  "lights (ad s) k = Some d \<Longrightarrow> lights (ad (snd (addLights C ls s))) k = Some d"
proof (induction ls arbitrary: s)
  case Nil
  then show ?case by simp
next
  case (Cons a rest)
  obtain k' light where a: "a = (k', light)" by (cases a)
  show ?case
  proof (cases "tracked (lights (ad s)) k'")
    case True
    with Cons a show ?thesis by simp
  next
    case False
    then have ne: "k' \<noteq> k" using Cons.prems by (auto simp: tracked_def)
    show ?thesis
    proof (cases light)
      case None
      with False a Cons.prems show ?thesis by simp
    next
      case (Some l)
      from ne Cons.prems have "lights (ad (newLight C k' l s)) k = Some d"
        by (simp add: newLight_simps)
      then have "lights (ad (snd (addLights C rest (newLight C k' l s)))) k = Some d"
        by (rule Cons.IH)
      with False a Some show ?thesis by simp
    qed
  qed
qed

lemma addLights_tracked:
  "tracked (lights (ad s)) k \<Longrightarrow> tracked (lights (ad (snd (addLights C ls s)))) k"
proof -
  assume t: "tracked (lights (ad s)) k"
  show ?thesis
  proof (cases "lights (ad s) k")
    case None
    with t show ?thesis by (simp add: tracked_def)
  next
    case (Some d)
    then have "lights (ad (snd (addLights C ls s))) k = Some d" by (rule addLights_keeps)
    then show ?thesis by (simp add: tracked_def)
  qed
qed

lemma addLights_twice:
  "addLights C ls s = (e, s1) \<Longrightarrow> addLights C ls s1 = (e, s1)"
proof (induction ls arbitrary: s)
  case Nil
  then show ?case by simp
next
  case (Cons a rest)
  obtain k light where a: "a = (k, light)" by (cases a)
  show ?case
  proof (cases "tracked (lights (ad s)) k")
    case True
    with Cons.prems a have r: "addLights C rest s = (e, s1)" by simp
    then have "s1 = snd (addLights C rest s)" by simp
    with True have "tracked (lights (ad s1)) k" by (simp add: addLights_tracked)
    moreover have "addLights C rest s1 = (e, s1)" using Cons.IH r by simp
    ultimately show ?thesis using a by simp
  next
    case False
    show ?thesis
    proof (cases light)
      case None
      with False Cons.prems a show ?thesis by auto
    next
      case (Some l)
      from False Some Cons.prems a have r: "addLights C rest (newLight C k l s) = (e, s1)"
        by simp
      have "tracked (lights (ad (newLight C k l s))) k"
        by (simp add: newLight_simps tracked_def)
      then have "tracked (lights (ad (snd (addLights C rest (newLight C k l s))))) k"
        by (rule addLights_tracked)
      with r have t: "tracked (lights (ad s1)) k" by simp
      have "addLights C rest s1 = (e, s1)" using Cons.IH r by simp
      with t a show ?thesis by simp
    qed
  qed
qed

lemma addLights_trace:
  "\<exists>ds. trace (snd (addLights C ls s)) = trace s @ map DeviceAdded ds"
proof (induction ls arbitrary: s)
  case Nil
  then show ?case by simp
next
  case (Cons a rest)
  obtain k light where a: "a = (k, light)" by (cases a)
  show ?case
  proof (cases "tracked (lights (ad s)) k")
    case True
    with Cons.IH a show ?thesis by simp
  next
    case False
    show ?thesis
    proof (cases light)
      case None
      with False a show ?thesis by simp
    next
      case (Some l)
      from Cons.IH[of "newLight C k l s"] obtain ds where
        "trace (snd (addLights C rest (newLight C k l s))) = trace (newLight C k l s) @ map DeviceAdded ds"
        by blast
      then have "trace (snd (addLights C rest (newLight C k l s))) =
         trace s @ map DeviceAdded (PhilipsHueDevice C (''philips-hue-'' @ bridgeId (ad s) @ ''-'' @ k) k l # ds)"
        by (simp add: newLight_simps)
      moreover have "addLights C (a # rest) s = addLights C rest (newLight C k l s)"
        using False Some a by simp
      ultimately show ?thesis by (intro exI[of _ "PhilipsHueDevice C (''philips-hue-'' @ bridgeId (ad s) @ ''-'' @ k) k l # ds"]) simp
    qed
  qed
qed

lemma timesCreated_tracked:
  "tracked (lights (ad s)) k \<Longrightarrow>
   timesCreated k (trace (snd (addLights C ls s))) = timesCreated k (trace s)"
proof (induction ls arbitrary: s)
  case Nil
  then show ?case by simp
next
  case (Cons a rest)
  obtain k' light where a: "a = (k', light)" by (cases a)
  show ?case
  proof (cases "tracked (lights (ad s)) k'")
    case True
    with Cons a show ?thesis by simp
  next
    case False
    then have ne: "k' \<noteq> k" using Cons.prems by auto
    show ?thesis
    proof (cases light)
      case None
      with False a show ?thesis by simp
    next
      case (Some l)
      have "tracked (lights (ad (newLight C k' l s))) k"
        using Cons.prems ne by (simp add: newLight_simps tracked_def)
      then have "timesCreated k (trace (snd (addLights C rest (newLight C k' l s)))) =
         timesCreated k (trace (newLight C k' l s))" by (rule Cons.IH)
      also have "\<dots> = timesCreated k (trace s)"
        using ne by (simp add: newLight_simps timesCreated_append)
           (simp add: timesCreated_def lightId_PhilipsHueDevice)
      finally show ?thesis using False Some a by simp
    qed
  qed
qed

lemma timesCreated_new:
  "addLights C ls s = (None, s1) \<Longrightarrow> \<not> tracked (lights (ad s)) k \<Longrightarrow> k \<in> fst ` set ls \<Longrightarrow>
   timesCreated k (trace s1) = timesCreated k (trace s) + 1"
proof (induction ls arbitrary: s)
  case Nil
  then show ?case by simp
next
  case (Cons a rest)
  obtain k' light where a: "a = (k', light)" by (cases a)
  show ?case
  proof (cases "tracked (lights (ad s)) k'")
    case True
    then have ne: "k' \<noteq> k" using Cons.prems by auto
    with Cons.prems a have "k \<in> fst ` set rest" by auto
    moreover from True Cons.prems a have "addLights C rest s = (None, s1)" by simp
    ultimately show ?thesis using Cons.IH[of s] Cons.prems(2) by simp
  next
    case False
    show ?thesis
    proof (cases light)
      case None
      with False a Cons.prems show ?thesis by simp
    next
      case (Some l)
      from False Some Cons.prems a have r: "addLights C rest (newLight C k' l s) = (None, s1)"
        by simp
      show ?thesis
      proof (cases "k' = k")
        case True
        have "tracked (lights (ad (newLight C k' l s))) k"
          using True by (simp add: newLight_simps tracked_def)
        then have "timesCreated k (trace (snd (addLights C rest (newLight C k' l s)))) =
          timesCreated k (trace (newLight C k' l s))" by (rule timesCreated_tracked)
        with r have "timesCreated k (trace s1) = timesCreated k (trace (newLight C k' l s))"
          by simp
        also have "\<dots> = timesCreated k (trace s) + 1"
          using True by (simp add: newLight_simps timesCreated_append)
            (simp add: timesCreated_def lightId_PhilipsHueDevice)
        finally show ?thesis .
      next
        case ne: False
        with Cons.prems a have in_rest: "k \<in> fst ` set rest" by auto
        have nt: "\<not> tracked (lights (ad (newLight C k' l s))) k"
          using ne Cons.prems(2) by (simp add: newLight_simps tracked_def)
        have "timesCreated k (trace s1) = timesCreated k (trace (newLight C k' l s)) + 1"
          using Cons.IH[OF r nt in_rest] .
        also have "timesCreated k (trace (newLight C k' l s)) = timesCreated k (trace s)"
          using ne by (simp add: newLight_simps timesCreated_append)
            (simp add: timesCreated_def lightId_PhilipsHueDevice)
        finally show ?thesis .
      qed
    qed
  qed
qed

lemma addLights_ok:
  "\<forall>x \<in> set ls. snd x \<noteq> None \<Longrightarrow> fst (addLights C ls s) = None"
proof (induction ls arbitrary: s)
  case Nil
  then show ?case by simp
next
  case (Cons a rest)
  obtain k light where a: "a = (k, light)" by (cases a)
  from Cons.prems a obtain l where l: "light = Some l" by auto
  from Cons.prems have rest: "\<forall>x \<in> set rest. snd x \<noteq> None" by simp
  show ?case
  proof (cases "tracked (lights (ad s)) k")
    case True
    with a Cons.IH[OF rest, of s] show ?thesis by simp
  next
    case False
    with a l Cons.IH[OF rest, of "newLight C k l s"] show ?thesis by simp
  qed
qed

lemma addLights_stable:
  "addLights C ls s = (e, s1) \<Longrightarrow> lights (ad t) = lights (ad s1) \<Longrightarrow> addLights C ls t = (e, t)"
proof (induction ls arbitrary: s)
  case Nil
  then show ?case by simp
next
  case (Cons a rest)
  obtain k light where a: "a = (k, light)" by (cases a)
  show ?case
  proof (cases "tracked (lights (ad s)) k")
    case True
    with Cons.prems a have r: "addLights C rest s = (e, s1)" by simp
    then have "s1 = snd (addLights C rest s)" by simp
    with True have "tracked (lights (ad s1)) k" by (simp add: addLights_tracked)
    with Cons.prems(2) have "tracked (lights (ad t)) k" by simp
    moreover have "addLights C rest t = (e, t)" using Cons.IH [OF r Cons.prems(2)] .
    ultimately show ?thesis using a by simp
  next
    case False
    show ?thesis
    proof (cases light)
      case None
      with False Cons.prems a have "e = Some TypeError" and "s1 = s" by auto
      with False Cons.prems(2) None a show ?thesis by simp
    next
      case (Some l)
      from False Some Cons.prems a have r: "addLights C rest (newLight C k l s) = (e, s1)"
        by simp
      have "tracked (lights (ad (newLight C k l s))) k"
        by (simp add: newLight_simps tracked_def)
      then have "tracked (lights (ad (snd (addLights C rest (newLight C k l s))))) k"
        by (rule addLights_tracked)
      with r Cons.prems(2) have "tracked (lights (ad t)) k" by simp
      moreover have "addLights C rest t = (e, t)" using Cons.IH [OF r Cons.prems(2)] .
      ultimately show ?thesis using a by simp
    qed
  qed
qed

lemma addLights_registers:
  "addLights C ls s = (None, s1) \<Longrightarrow> \<not> tracked (lights (ad s)) k \<Longrightarrow>
   map_of ls k = Some (Some l) \<Longrightarrow>
   lights (ad s1) k = Some (PhilipsHueDevice C (''philips-hue-'' @ bridgeId (ad s) @ ''-'' @ k) k l)"
proof (induction ls arbitrary: s)
  case Nil
  then show ?case by simp
next
  case (Cons a rest)
  obtain k' light where a: "a = (k', light)" by (cases a)
  show ?case
  proof (cases "tracked (lights (ad s)) k'")
    case True
    then have ne: "k' \<noteq> k" using Cons.prems(2) by auto
    with Cons.prems(3) a have m: "map_of rest k = Some (Some l)" by simp
    from True Cons.prems(1) a have "addLights C rest s = (None, s1)" by simp
    from Cons.IH [OF this Cons.prems(2) m] show ?thesis .
  next
    case False
    show ?thesis
    proof (cases light)
      case None
      with False a Cons.prems(1) show ?thesis by simp
    next
      case (Some l')
      from False Some Cons.prems(1) a have r: "addLights C rest (newLight C k' l' s) = (None, s1)"
        by simp
      then have s1: "s1 = snd (addLights C rest (newLight C k' l' s))" by simp
      show ?thesis
      proof (cases "k' = k")
        case True
        with Cons.prems(3) a Some have "l' = l" by simp
        with True have "lights (ad (newLight C k' l' s)) k =
            Some (PhilipsHueDevice C (''philips-hue-'' @ bridgeId (ad s) @ ''-'' @ k) k l)"
          by (simp add: newLight_simps)
        then show ?thesis unfolding s1 by (rule addLights_keeps)
      next
        case ne: False
        with Cons.prems(3) a have m: "map_of rest k = Some (Some l)" by simp
        have nt: "\<not> tracked (lights (ad (newLight C k' l' s))) k"
          using ne Cons.prems(2) by (simp add: newLight_simps tracked_def)
        from Cons.IH [OF r nt m] show ?thesis by (simp add: newLight_simps)
      qed
    qed
  qed
qed

lemma lightsReply_devices:
  "lights (ad (lightsReply C og now (Body ls) s)) = lights (ad (snd (addLights C ls s))) \<and>
   created (trace (lightsReply C og now (Body ls) s)) = created (trace (snd (addLights C ls s))) \<and>
   username (ad (lightsReply C og now (Body ls) s)) = username (ad s) \<and>
   bridgeId (ad (lightsReply C og now (Body ls) s)) = bridgeId (ad s)"
proof -
  obtain e s1 where al: "addLights C ls s = (e, s1)" by (cases "addLights C ls s")
  have f: "username (ad s1) = username (ad s)" "bridgeId (ad s1) = bridgeId (ad s)"
    using addLights_fields [of C ls s] al by simp_all
  show ?thesis
    using al f
    by (cases e; cases og)
      (simp_all add: lightsReply_def rejected_def catchPairing_def emit_def await_def Let_def
        created_append)
qed

lemma map_of_fst: "map_of ls k = Some v \<Longrightarrow> k \<in> fst ` set ls"
  by (induction ls) (auto split: if_splits)


subsection \<open>Storage writes\<close>

lemma quiet_refl: "quiet s s"
  by (simp add: quiet_def)

lemma quiet_trans: "quiet s s1 \<Longrightarrow> quiet s1 s2 \<Longrightarrow> quiet s s2"
  by (auto simp: quiet_def)

lemma quiet_trace: "trace s1 = trace s \<Longrightarrow> quiet s s1"
  by (simp add: quiet_def)

lemma quiet_catchPairing: "quiet s (catchPairing now e s)"
  by (simp add: quiet_def catchPairing_def emit_def await_def Let_def)

lemma quiet_onPaired: "quiet s (onPaired now u s)"
  by (simp add: quiet_def onPaired_def discoverLights_def catchPairing_def emit_def await_def Let_def)

lemma quiet_attemptPairing: "quiet s (attemptPairing now s)"
  using quiet_onPaired
  by (simp add: attemptPairing_def pair_def) (simp add: quiet_def emit_def await_def)

lemma quiet_startPairing: "quiet s (startPairing now t s)"
proof -
  have "quiet (s\<lparr>ad := (ad s)\<lparr>pairing := True, pairingEnd := now + t * 1000\<rparr>\<rparr>) (startPairing now t s)"
    unfolding startPairing_def by (rule quiet_attemptPairing)
  then show ?thesis by (simp add: quiet_def)
qed

lemma quiet_addLights: "quiet s (snd (addLights C ls s))"
proof -
  obtain ds where "trace (snd (addLights C ls s)) = trace s @ map DeviceAdded ds"
    using addLights_trace by blast
  moreover have "filter isSetItem (map DeviceAdded ds) = []" by (induction ds) simp_all
  ultimately show ?thesis unfolding quiet_def by blast
qed

lemma quiet_rejected: "quiet s (rejected og now e s)"
  using quiet_catchPairing by (cases og) (simp_all add: rejected_def quiet_def emit_def)

lemma quiet_lightsReply: "quiet s (lightsReply C og now r s)"
proof (cases r)
  case FetchFailed
  then show ?thesis by (simp add: lightsReply_def quiet_rejected)
next
  case BodyFailed
  then show ?thesis by (simp add: lightsReply_def quiet_rejected)
next
  case (Body ls)
  obtain e sL where al: "addLights C ls s = (e, sL)" by (cases "addLights C ls s")
  then have q: "quiet s sL" using quiet_addLights[of s C ls] by simp
  show ?thesis
  proof (cases e)
    case None
    have "quiet sL (lightsReply C og now r s)"
      using Body al None by (cases og) (simp_all add: lightsReply_def quiet_def emit_def await_def)
    with q show ?thesis by (rule quiet_trans)
  next
    case (Some x)
    have "quiet sL (lightsReply C og now r s)"
      using Body al Some by (simp add: lightsReply_def quiet_rejected)
    with q show ?thesis by (rule quiet_trans)
  qed
qed

lemma quiet_storageInitDone: "quiet s (storageInitDone og now r s)"
  using quiet_catchPairing
  by (cases r; cases og) (simp_all add: storageInitDone_def quiet_def emit_def await_def)

lemma quiet_storageSetDone: "quiet s (storageSetDone now r s)"
  using quiet_catchPairing by (cases r) (simp_all add: storageSetDone_def quiet_refl)

lemma quiet_bootGetDone: "quiet s (bootGetDone r s)"
  by (simp add: bootGetDone_def quiet_def discoverLights_def emit_def await_def Let_def
      split: outcome.splits option.splits)

lemma quiet_putReply: "quiet s (snd (putReply r s))"
  by (cases r) (simp_all add: putReply_def putText_def catchLog_def quiet_def emit_def)

lemma quiet_setValue: "setValue C k pname v s = Some s1 \<Longrightarrow> quiet s s1"
  by (auto simp: setValue_def quiet_def sendProperties_def emit_def await_def Let_def
      split: option.splits if_splits notification.splits)

lemma quiet_complete: "quiet (complete i s) s1 \<Longrightarrow> quiet s s1"
  by (simp add: quiet_def complete_def)

lemma resume_writes:
  assumes "resume C now p r (complete i s) = Some s1"
  shows "quiet s s1 \<or>
    (\<exists>known. p = StorageGetWait Pairing \<and> r = StorageGetResp (Resolves known) \<and>
       trace s1 = trace s @ [StorageSetItem KNOWN_BRIDGE_USERNAMES
                               (merge known (bridgeId (ad s)) (username (ad s)))])"
proof (cases p)
  case PairFetch
  with assms obtain r' where r: "r = PairResp r'" by (cases r) auto
  have "quiet (complete i s) s1"
    using assms PairFetch r quiet_catchPairing quiet_onPaired
    by (cases "pairReply r'") auto
  then show ?thesis by (simp add: quiet_complete)
next
  case (LightsFetch og)
  with assms obtain r' where r: "r = LightsResp r'" by (cases r) auto
  have "quiet (complete i s) s1" using assms LightsFetch r quiet_lightsReply by auto
  then show ?thesis by (simp add: quiet_complete)
next
  case (StorageInitWait og)
  with assms obtain r' where r: "r = StorageInitResp r'" by (cases r) auto
  have "quiet (complete i s) s1" using assms StorageInitWait r quiet_storageInitDone by auto
  then show ?thesis by (simp add: quiet_complete)
next
  case (StorageGetWait og)
  with assms obtain r' where r: "r = StorageGetResp r'" by (cases og; cases r) auto
  show ?thesis
  proof (cases og)
    case Boot
    have "quiet (complete i s) s1" using assms StorageGetWait r Boot quiet_bootGetDone by auto
    then show ?thesis by (simp add: quiet_complete)
  next
    case Pairing
    show ?thesis
    proof (cases r')
      case Rejects
      have "quiet (complete i s) s1"
        using assms StorageGetWait r Pairing Rejects quiet_catchPairing
        by (auto simp: storageGetDone_def)
      then show ?thesis by (simp add: quiet_complete)
    next
      case (Resolves known)
      with assms StorageGetWait r Pairing show ?thesis
        by (auto simp: storageGetDone_def emit_def await_def complete_def)
    qed
  qed
next
  case StorageSetWait
  with assms obtain r' where r: "r = StorageSetResp r'" by (cases r) auto
  have "quiet (complete i s) s1" using assms StorageSetWait r quiet_storageSetDone by auto
  then show ?thesis by (simp add: quiet_complete)
next
  case RetryTimer
  with assms have r: "r = TimerFired" by (cases r) auto
  have "quiet (complete i s) s1" using assms RetryTimer r quiet_attemptPairing by auto
  then show ?thesis by (simp add: quiet_complete)
next
  case PutFetch
  with assms obtain r' where r: "r = PutResp r'" by (cases r) auto
  have "quiet (complete i s) s1" using assms PutFetch r quiet_putReply by auto
  then show ?thesis by (simp add: quiet_complete)
qed

lemma step_writes:
  assumes "step C now e s = Some s1"
  shows "quiet s s1 \<or>
    (\<exists>i known. e = Settle i (StorageGetResp (Resolves known)) \<and> i < length (pend s) \<and>
       pend s ! i = StorageGetWait Pairing \<and>
       trace s1 = trace s @ [StorageSetItem KNOWN_BRIDGE_USERNAMES
                               (merge known (bridgeId (ad s)) (username (ad s)))])"
proof (cases e)
  case (StartPairing t)
  with assms show ?thesis using quiet_startPairing by auto
next
  case CancelPairing
  with assms show ?thesis by (auto simp: cancelPairing_def quiet_def)
next
  case (SetValue k pname v)
  with assms show ?thesis using quiet_setValue by auto
next
  case (Settle i r)
  with assms have i: "i < length (pend s)" and re: "resume C now (pend s ! i) r (complete i s) = Some s1"
    by (auto split: if_splits)
  from resume_writes[OF re] Settle i show ?thesis by auto
qed

lemma step_extends: "step C now e s = Some s1 \<Longrightarrow> \<exists>u. trace s1 = trace s @ u"
  using step_writes[of C now e s s1] by (auto simp: quiet_def)

subsection \<open>Sessions with a bridge that never grants a username\<close>

lemma step_session:
  assumes "inSession s" and "failing e" and "step C now e s = Some s1"
  shows "inSession s1 \<and> pairingEnd (ad s1) = pairingEnd (ad s) \<and>
         (pairingEnd (ad s) \<le> now \<longrightarrow> registrations (issued s s1) + budget s1 \<le> budget s)"
proof (cases e)
  case (StartPairing x1)
  with assms show ?thesis by simp
next
  case CancelPairing
  with assms show ?thesis
    by (auto simp: inSession_def cancelPairing_def issued_def budget_def registrations_def)
next
  case (SetValue x31 x32 x33)
  with assms show ?thesis by simp
next
  case (Settle i r)
  from assms(1) consider "pend s = []" | "pend s = [PairFetch]" | "pend s = [RetryTimer]"
    by (auto simp: inSession_def)
  then show ?thesis
  proof cases
    case 1
    with assms Settle show ?thesis by simp
  next
    case 2
    with assms(3) Settle have i: "i = 0" by (simp split: if_splits)
    from assms(2) Settle consider "r = TimerFired" | r' where "r = PairResp r'" "isl (pairReply r')"
      by (cases r) auto
    then show ?thesis
    proof cases
      case 1
      with assms(3) Settle i 2 show ?thesis by simp
    next
      case 2
      then obtain x where x: "pairReply r' = Inl x" by (cases "pairReply r'") auto
      from assms(3) Settle i \<open>pend s = [PairFetch]\<close> 2 x
      have "s1 = catchPairing now x (complete 0 s)" by simp
      with assms(1) \<open>pend s = [PairFetch]\<close> show ?thesis
        by (auto simp: inSession_def catchPairing_def emit_def await_def complete_def Let_def
            issued_def budget_def registrations_def)
    qed
  next
    case 3
    with assms(3) Settle have i: "i = 0" by (simp split: if_splits)
    from assms(2) Settle consider "r = TimerFired" | r' where "r = PairResp r'"
      by (cases r) auto
    then show ?thesis
    proof cases
      case 1
      with assms(3) Settle i 3 have "s1 = attemptPairing now (complete 0 s)" by simp
      with assms(1) 3 show ?thesis
        by (auto simp: inSession_def attemptPairing_def pair_def emit_def await_def complete_def
            issued_def budget_def registrations_def)
    next
      case 2
      with assms(3) Settle i 3 show ?thesis by simp
    qed
  qed
qed

lemma late_bound:
  "inSession s \<Longrightarrow> \<forall>x \<in> set es. failing (snd x) \<and> pairingEnd (ad s) \<le> fst x \<Longrightarrow>
   latePosts C (pairingEnd (ad s)) es s \<le> budget s"
proof (induction es arbitrary: s)
  case Nil
  then show ?case by simp
next
  case (Cons a es)
  obtain now e where a: "a = (now, e)" by (cases a)
  from Cons.prems a have f: "failing e" and t: "pairingEnd (ad s) \<le> now"
    and rest: "\<forall>x \<in> set es. failing (snd x) \<and> pairingEnd (ad s) \<le> fst x" by auto
  show ?case
  proof (cases "step C now e s")
    case None
    with a Cons.IH[OF Cons.prems(1) rest] show ?thesis by simp
  next
    case (Some s1)
    from step_session[OF Cons.prems(1) f Some] t
    have i1: "inSession s1" and pe: "pairingEnd (ad s1) = pairingEnd (ad s)"
      and b: "registrations (issued s s1) + budget s1 \<le> budget s" by auto
    from rest pe have "\<forall>x \<in> set es. failing (snd x) \<and> pairingEnd (ad s1) \<le> fst x" by simp
    from Cons.IH[OF i1 this] pe have "latePosts C (pairingEnd (ad s)) es s1 \<le> budget s1" by simp
    with b a Some t show ?thesis by simp
  qed
qed

lemma late_general:
  "inSession s \<Longrightarrow> sorted (map fst es) \<Longrightarrow> \<forall>x \<in> set es. failing (snd x) \<Longrightarrow>
   latePosts C (pairingEnd (ad s)) es s \<le> 1"
proof (induction es arbitrary: s)
  case Nil
  then show ?case by simp
next
  case (Cons a es)
  obtain now e where a: "a = (now, e)" by (cases a)
  from Cons.prems a have f: "failing e" and rest: "\<forall>x \<in> set es. failing (snd x)"
    and so: "sorted (map fst es)" and le: "\<forall>x \<in> set es. now \<le> fst x" by auto
  show ?case
  proof (cases "pairingEnd (ad s) \<le> now")
    case True
    with le Cons.prems(3) a have "\<forall>x \<in> set (a # es). failing (snd x) \<and> pairingEnd (ad s) \<le> fst x"
      by auto
    from late_bound[OF Cons.prems(1) this] have "latePosts C (pairingEnd (ad s)) (a # es) s \<le> budget s" .
    also have "budget s \<le> 1" by (simp add: budget_def)
    finally show ?thesis .
  next
    case False
    show ?thesis
    proof (cases "step C now e s")
      case None
      with a Cons.IH[OF Cons.prems(1) so rest] show ?thesis by simp
    next
      case (Some s1)
      from step_session[OF Cons.prems(1) f Some]
      have i1: "inSession s1" and pe: "pairingEnd (ad s1) = pairingEnd (ad s)" by auto
      from Cons.IH[OF i1 so rest] pe have "latePosts C (pairingEnd (ad s)) es s1 \<le> 1" by simp
      with a Some False show ?thesis by simp
    qed
  qed
qed

section \<open>The claims\<close>

text \<open>
  C1, as the code has it. \<open>attemptPairing\<close> does not read the pairing flag; only the
  \<open>.catch\<close> handler does, when it decides on the next retry. A retry that is waiting when
  \<open>cancelPairing\<close> is called therefore still fires and, with no username known, issues
  exactly one registration request. The cancellation takes effect at the decision that
  follows: when that request fails, the failure is logged and no retry is scheduled.
\<close>

theorem cancel_during_wait:
  assumes "i < length (pend s)" and "pend s ! i = RetryTimer" and "\<not> truthy (username (ad s))"
  shows "\<exists>s2. step C now (Settle i TimerFired) (cancelPairing s) = Some s2 \<and>
           trace s2 = trace s @ [HttpPost (''http://'' @ bridgeIp (ad s) @ ''/api'') PAIR_BODY] \<and>
           registrations (trace s2) = registrations (trace s) + 1 \<and>
           pend s2 = take i (pend s) @ drop (Suc i) (pend s) @ [PairFetch] \<and>
           (\<forall>r e t. pairReply r = Inl e \<longrightarrow>
              (\<exists>s3. step C t (Settle (length (pend s) - 1) (PairResp r)) s2 = Some s3 \<and>
                    trace s3 = trace s2 @ [ConsoleError e] \<and>
                    pend s3 = take i (pend s) @ drop (Suc i) (pend s)))"
proof -
  define s2 where "s2 = await PairFetch
     (emit (HttpPost (''http://'' @ bridgeIp (ad s) @ ''/api'') PAIR_BODY) (complete i (cancelPairing s)))"
  have st: "step C now (Settle i TimerFired) (cancelPairing s) = Some s2"
    using assms by (simp add: s2_def cancelPairing_def attemptPairing_def pair_def complete_def)
  have tr: "trace s2 = trace s @ [HttpPost (''http://'' @ bridgeIp (ad s) @ ''/api'') PAIR_BODY]"
    by (simp add: s2_def await_def emit_def complete_def cancelPairing_def)
  have pe: "pend s2 = take i (pend s) @ drop (Suc i) (pend s) @ [PairFetch]"
    by (simp add: s2_def await_def emit_def complete_def cancelPairing_def)
  have pa: "\<not> pairing (ad s2)"
    by (simp add: s2_def await_def emit_def complete_def cancelPairing_def)
  have re: "registrations (trace s2) = registrations (trace s) + 1"
    by (simp add: tr registrations_append) (simp add: registrations_def)
  have later: "\<exists>s3. step C t (Settle (length (pend s) - 1) (PairResp r)) s2 = Some s3 \<and>
                    trace s3 = trace s2 @ [ConsoleError e] \<and>
                    pend s3 = take i (pend s) @ drop (Suc i) (pend s)"
    if "pairReply r = Inl e" for r e t
  proof -
    have "step C t (Settle (length (pend s) - 1) (PairResp r)) s2 =
            Some (emit (ConsoleError e) (complete (length (pend s) - 1) s2))"
      using that pa assms(1) by (simp add: pe last_pending catchPairing_def emit_def complete_def)
    moreover have "pend (emit (ConsoleError e) (complete (length (pend s) - 1) s2)) =
        take i (pend s) @ drop (Suc i) (pend s)"
      using assms(1) by (simp add: emit_def complete_simps pe last_pending)
    moreover have "trace (emit (ConsoleError e) (complete (length (pend s) - 1) s2)) = trace s2 @ [ConsoleError e]"
      by (simp add: emit_def complete_simps)
    ultimately show ?thesis by simp
  qed
  from st tr re pe later show ?thesis by blast
qed

theorem cancel_during_wait_witness:
  "pend waitingSys ! 0 = RetryTimer \<and>
   (\<exists>s2. step sampleRuntime 1700 (Settle 0 TimerFired) (cancelPairing waitingSys) = Some s2 \<and>
      registrations (trace s2) = 2 \<and> pend s2 = [PairFetch] \<and>
      (\<exists>s3. step sampleRuntime 1800 (Settle 0 buttonNotPressed) s2 = Some s3 \<and>
         trace s3 = trace s2 @ [ConsoleError (BridgeError ''link button not pressed'')] \<and>
         pend s3 = []))"
proof -
  have h1: "0 < length (pend waitingSys)" by (simp add: waitingSys_def)
  have h2: "pend waitingSys ! 0 = RetryTimer" by (simp add: waitingSys_def)
  have h3: "\<not> truthy (username (ad waitingSys))" by (simp add: waitingSys_def)
  have h4: "pairReply (Body (Arr [MsgError ''link button not pressed''])) =
      Inl (BridgeError ''link button not pressed'')"
    by (simp add: pairReply_def)
  from cancel_during_wait [OF h1 h2 h3, of sampleRuntime 1700] obtain s2 where
    a: "step sampleRuntime 1700 (Settle 0 TimerFired) (cancelPairing waitingSys) = Some s2"
    and b: "registrations (trace s2) = registrations (trace waitingSys) + 1"
    and c: "pend s2 = take 0 (pend waitingSys) @ drop (Suc 0) (pend waitingSys) @ [PairFetch]"
    and d: "\<forall>r e t. pairReply r = Inl e \<longrightarrow>
              (\<exists>s3. step sampleRuntime t (Settle (length (pend waitingSys) - 1) (PairResp r)) s2 = Some s3 \<and>
                    trace s3 = trace s2 @ [ConsoleError e] \<and>
                    pend s3 = take 0 (pend waitingSys) @ drop (Suc 0) (pend waitingSys))"
    by blast
  from d h4 obtain s3 where
    "step sampleRuntime 1800 (Settle (length (pend waitingSys) - 1)
        (PairResp (Body (Arr [MsgError ''link button not pressed''])))) s2 = Some s3"
    "trace s3 = trace s2 @ [ConsoleError (BridgeError ''link button not pressed'')]"
    "pend s3 = take 0 (pend waitingSys) @ drop (Suc 0) (pend waitingSys)"
    by blast
  then have e: "\<exists>s3. step sampleRuntime 1800 (Settle 0 buttonNotPressed) s2 = Some s3 \<and>
         trace s3 = trace s2 @ [ConsoleError (BridgeError ''link button not pressed'')] \<and>
         pend s3 = []"
    by (simp add: waitingSys_def buttonNotPressed_def)
  have "registrations (trace s2) = 2"
    using b by (simp add: waitingSys_def registrations_def)
  moreover have "pend s2 = [PairFetch]" using c by (simp add: waitingSys_def)
  ultimately show ?thesis using a h2 e by blast
qed

text \<open>
  The claim C1 fails on the code: the pairing flag is false and the retry timer is still
  pending when its callback runs at 1700, and the callback issues a registration request.
\<close>

theorem cancel_during_wait_counterexample:
  "run sampleRuntime
     (bootIdle @ [(1000, StartPairing 30), (1100, Settle 0 buttonNotPressed),
                  (1200, CancelPairing)]) freshAdapter = Some (cancelPairing waitingSys) \<and>
   pairing (ad (cancelPairing waitingSys)) = False \<and>
   pend (cancelPairing waitingSys) = [RetryTimer] \<and>
   map_option (\<lambda>s. registrations (issued (cancelPairing waitingSys) s))
     (step sampleRuntime 1700 (Settle 0 TimerFired) (cancelPairing waitingSys)) = Some 1"
proof -
  have "run sampleRuntime
     (bootIdle @ [(1000, StartPairing 30), (1100, Settle 0 buttonNotPressed),
                  (1200, CancelPairing)]) freshAdapter = Some (cancelPairing waitingSys)"
    by (simp add: examples handlers)
  moreover have "map_option (\<lambda>s. registrations (issued (cancelPairing waitingSys) s))
     (step sampleRuntime 1700 (Settle 0 TimerFired) (cancelPairing waitingSys)) = Some 1"
    by (simp add: examples handlers issued_def registrations_def)
  ultimately show ?thesis by (simp add: waitingSys_def cancelPairing_def)
qed

text \<open>
  C2, as the code has it. The deadline is read in one place, the \<open>.catch\<close> handler: when
  an attempt fails, a retry is scheduled exactly when the pairing flag is set and the
  time is before the deadline, and the handler issues no request. The callback of the
  timer does not read the deadline (nor the pairing flag): whenever it fires with no
  username known it issues one registration request, so the retry that was scheduled
  before the deadline issues its request also after the deadline. In a session
  started by \<open>startPairing\<close> with no credential and nothing else pending, against a
  bridge that never grants a username and with a clock that does not run backwards, at
  most one registration request is issued at or after the deadline. From a moment at or
  after the deadline at which no retry is waiting, no registration request is issued
  any more.
\<close>

theorem retry_until_deadline:
  assumes "pend s = []" and "\<not> truthy (username (ad s))"
    and "sorted (map fst es)" and "\<forall>x \<in> set es. failing (snd x)"
  shows "latePosts C (now + timeoutSeconds * 1000) es (startPairing now timeoutSeconds s) \<le> 1 \<and>
    (\<forall>i r e t s1. i < length (pend s1) \<and> pend s1 ! i = PairFetch \<and> pairReply r = Inl e \<longrightarrow>
       (\<exists>s2. step C t (Settle i (PairResp r)) s1 = Some s2 \<and>
          pend s2 = take i (pend s1) @ drop (Suc i) (pend s1) @
                      (if pairing (ad s1) \<and> t < pairingEnd (ad s1) then [RetryTimer] else []) \<and>
          registrations (issued s1 s2) = 0)) \<and>
    (\<forall>fs s1. inSession s1 \<and> pend s1 \<noteq> [RetryTimer] \<and>
        (\<forall>x \<in> set fs. failing (snd x) \<and> pairingEnd (ad s1) \<le> fst x) \<longrightarrow>
        latePosts C (pairingEnd (ad s1)) fs s1 = 0) \<and>
    (\<forall>i t s1. i < length (pend s1) \<and> pend s1 ! i = RetryTimer \<and>
        \<not> truthy (username (ad s1)) \<longrightarrow>
        (\<exists>s2. step C t (Settle i TimerFired) s1 = Some s2 \<and>
           issued s1 s2 = [HttpPost (''http://'' @ bridgeIp (ad s1) @ ''/api'') PAIR_BODY]))"
proof -
  let ?s0 = "startPairing now timeoutSeconds s"
  have s0: "inSession ?s0" "pairingEnd (ad ?s0) = now + timeoutSeconds * 1000"
    using assms(1,2)
    by (simp_all add: inSession_def startPairing_def attemptPairing_def pair_def emit_def await_def)
  from late_general [OF s0(1) assms(3,4), of C] s0(2)
  have a: "latePosts C (now + timeoutSeconds * 1000) es ?s0 \<le> 1" by simp
  have b: "\<exists>s2. step C t (Settle i (PairResp r)) s1 = Some s2 \<and>
          pend s2 = take i (pend s1) @ drop (Suc i) (pend s1) @
                      (if pairing (ad s1) \<and> t < pairingEnd (ad s1) then [RetryTimer] else []) \<and>
          registrations (issued s1 s2) = 0"
    if "i < length (pend s1) \<and> pend s1 ! i = PairFetch \<and> pairReply r = Inl e" for i r e t s1
    using that
    by (simp add: catchPairing_def emit_def await_def complete_def Let_def issued_def
        registrations_def)
  have c: "latePosts C (pairingEnd (ad s1)) fs s1 = 0"
    if "inSession s1 \<and> pend s1 \<noteq> [RetryTimer] \<and>
        (\<forall>x \<in> set fs. failing (snd x) \<and> pairingEnd (ad s1) \<le> fst x)" for fs s1
  proof -
    from that have "latePosts C (pairingEnd (ad s1)) fs s1 \<le> budget s1"
      using late_bound [of s1 fs C] by blast
    with that show ?thesis by (simp add: budget_def)
  qed
  have d: "\<exists>s2. step C t (Settle i TimerFired) s1 = Some s2 \<and>
           issued s1 s2 = [HttpPost (''http://'' @ bridgeIp (ad s1) @ ''/api'') PAIR_BODY]"
    if "i < length (pend s1) \<and> pend s1 ! i = RetryTimer \<and> \<not> truthy (username (ad s1))"
    for i t s1
    using that
    by (simp add: attemptPairing_def pair_def emit_def await_def complete_def issued_def)
  from a b c d show ?thesis by blast
qed

theorem retry_until_deadline_witness:
  "pend idleSys = [] \<and> sorted (map fst lateEvents) \<and>
   list_all (\<lambda>x. failing (snd x)) lateEvents \<and>
   latePosts sampleRuntime (1000 + 1 * 1000) lateEvents (startPairing 1000 1 idleSys) \<le> 1 \<and>
   map_option (\<lambda>s. (pend s, registrations (trace s)))
     (run sampleRuntime lateEvents (startPairing 1000 1 idleSys)) = Some ([], 2)"
proof -
  have h1: "pend idleSys = []" by (simp add: idleSys_def)
  have h2: "\<not> truthy (username (ad idleSys))" by (simp add: idleSys_def)
  have h3: "sorted (map fst lateEvents)" by (simp add: lateEvents_def)
  have h4: "\<forall>x \<in> set lateEvents. failing (snd x)" by (simp add: lateEvents_def pairReply_def)
  from retry_until_deadline [OF h1 h2 h3 h4, of sampleRuntime 1000 1]
  have "latePosts sampleRuntime (1000 + 1 * 1000) lateEvents (startPairing 1000 1 idleSys) \<le> 1"
    by blast
  moreover have "map_option (\<lambda>s. (pend s, registrations (trace s)))
     (run sampleRuntime lateEvents (startPairing 1000 1 idleSys)) = Some ([], 2)"
    by (simp add: examples handlers registrations_def)
  moreover have "list_all (\<lambda>x. failing (snd x)) lateEvents"
    using h4 by (simp add: list_all_iff)
  ultimately show ?thesis using h1 h3 by simp
qed

text \<open>
  The claim C2 fails on the code: the session was started at 1000 for one second, so the
  deadline is 2000; the request fails at 1999, the retry is scheduled, and its callback
  issues a registration request at 2499.
\<close>

theorem retry_until_deadline_counterexample:
  "run sampleRuntime (bootIdle @ [(1000, StartPairing 1), (1999, Settle 0 (PairResp FetchFailed))])
     freshAdapter = Some lateSys \<and>
   pairingEnd (ad lateSys) = 2000 \<and>
   pend lateSys = [RetryTimer] \<and>
   map_option (\<lambda>s. issued lateSys s) (step sampleRuntime 2499 (Settle 0 TimerFired) lateSys) =
     Some [HttpPost ''http://10.0.0.2/api'' PAIR_BODY] \<and>
   latePosts sampleRuntime 2000 [(2499, Settle 0 TimerFired)] lateSys = 1"
proof -
  have "run sampleRuntime (bootIdle @ [(1000, StartPairing 1), (1999, Settle 0 (PairResp FetchFailed))])
     freshAdapter = Some lateSys"
    by (simp add: examples handlers)
  moreover have "map_option (\<lambda>s. issued lateSys s)
      (step sampleRuntime 2499 (Settle 0 TimerFired) lateSys) =
     Some [HttpPost ''http://10.0.0.2/api'' PAIR_BODY]"
    by (simp add: examples handlers issued_def)
  moreover have "latePosts sampleRuntime 2000 [(2499, Settle 0 TimerFired)] lateSys = 1"
    by (simp add: examples handlers issued_def registrations_def)
  ultimately show ?thesis by (simp add: lateSys_def)
qed

text \<open>
  C3, as the code has it. When the bridge grants a username, the handlers run in this
  order: the username is stored in the adapter; the lights are requested; after the
  answer the devices are created; only then the storage is initialised, the table is
  read, and the merged table is written.
\<close>

theorem pairing_success_order:
  assumes "i < length (pend s)" and "pend s ! i = PairFetch"
    and "pairReply r = Inr u" and "truthy u"
    and "\<forall>x \<in> set ls. snd x \<noteq> None"
  shows "\<exists>s4 ds.
    run C [(t1, Settle i (PairResp r)),
           (t2, Settle (length (pend s) - 1) (LightsResp (Body ls))),
           (t3, Settle (length (pend s) - 1) (StorageInitResp (Resolves ()))),
           (t4, Settle (length (pend s) - 1) (StorageGetResp (Resolves known)))] s = Some s4 \<and>
    username (ad s4) = u \<and>
    trace s4 = trace s @
      [HttpGet (''http://'' @ bridgeIp (ad s) @ ''/api/'' @ toString u @ ''/lights'')] @
      map DeviceAdded ds @
      [StorageInit, StorageGetItem KNOWN_BRIDGE_USERNAMES,
       StorageSetItem KNOWN_BRIDGE_USERNAMES (merge known (bridgeId (ad s)) u)] \<and>
    pend s4 = take i (pend s) @ drop (Suc i) (pend s) @ [StorageSetWait]"
proof -
  let ?p = "take i (pend s) @ drop (Suc i) (pend s)"
  let ?j = "length (pend s) - 1"
  let ?get = "HttpGet (''http://'' @ bridgeIp (ad s) @ ''/api/'' @ toString u @ ''/lights'')"
  define s1 where "s1 = await (LightsFetch Pairing) (emit ?get ((complete i s)\<lparr>ad := (ad s)\<lparr>username := u\<rparr>\<rparr>))"
  have st1: "step C t1 (Settle i (PairResp r)) s = Some s1"
    using assms(1-4) by (simp add: s1_def onPaired_def discoverLights_def complete_simps)
  have p1: "pend s1 = ?p @ [LightsFetch Pairing]" and a1: "ad s1 = (ad s)\<lparr>username := u\<rparr>"
    and tr1: "trace s1 = trace s @ [?get]"
    by (simp_all add: s1_def await_def emit_def complete_def)
  define c1 where "c1 = complete ?j s1"
  have pc1: "pend c1 = ?p" and ac1: "ad c1 = (ad s)\<lparr>username := u\<rparr>" and tc1: "trace c1 = trace s @ [?get]"
    using assms(1) by (simp_all add: c1_def complete_simps p1 a1 tr1 last_pending)
  obtain e sL where al: "addLights C ls c1 = (e, sL)" by (cases "addLights C ls c1")
  have "e = None" using addLights_ok[OF assms(5), of C c1] al by simp
  with al have al: "addLights C ls c1 = (None, sL)" by simp
  have sL: "sL = snd (addLights C ls c1)" using al by simp
  obtain ds where trL: "trace sL = trace c1 @ map DeviceAdded ds"
    using addLights_trace[of C ls c1] sL by auto
  have fL: "pend sL = ?p" "username (ad sL) = u" "bridgeId (ad sL) = bridgeId (ad s)"
    using addLights_fields[of C ls c1] sL pc1 ac1 by simp_all
  define s2 where "s2 = await (StorageInitWait Pairing) (emit StorageInit sL)"
  have st2: "step C t2 (Settle ?j (LightsResp (Body ls))) s1 = Some s2"
    using assms(1) al by (simp add: p1 last_pending lightsReply_def s2_def c1_def)
  have p2: "pend s2 = ?p @ [StorageInitWait Pairing]" and a2: "ad s2 = ad sL"
    and tr2: "trace s2 = trace sL @ [StorageInit]"
    by (simp_all add: s2_def await_def emit_def fL)
  define s3 where "s3 = await (StorageGetWait Pairing) (emit (StorageGetItem KNOWN_BRIDGE_USERNAMES) (complete ?j s2))"
  have st3: "step C t3 (Settle ?j (StorageInitResp (Resolves ()))) s2 = Some s3"
    using assms(1) by (simp add: p2 last_pending storageInitDone_def s3_def)
  have p3: "pend s3 = ?p @ [StorageGetWait Pairing]" and a3: "ad s3 = ad sL"
    and tr3: "trace s3 = trace sL @ [StorageInit, StorageGetItem KNOWN_BRIDGE_USERNAMES]"
    using assms(1) by (simp_all add: s3_def await_def emit_def complete_simps p2 a2 tr2 last_pending)
  define s4 where "s4 = await StorageSetWait
     (emit (StorageSetItem KNOWN_BRIDGE_USERNAMES (merge known (bridgeId (ad s)) u)) (complete ?j s3))"
  have st4: "step C t4 (Settle ?j (StorageGetResp (Resolves known))) s3 = Some s4"
    using assms(1) by (simp add: p3 last_pending storageGetDone_def s4_def complete_simps a3 fL)
  have p4: "pend s4 = ?p @ [StorageSetWait]" and a4: "ad s4 = ad sL"
    and tr4: "trace s4 = trace sL @ [StorageInit, StorageGetItem KNOWN_BRIDGE_USERNAMES,
        StorageSetItem KNOWN_BRIDGE_USERNAMES (merge known (bridgeId (ad s)) u)]"
    using assms(1) by (simp_all add: s4_def await_def emit_def complete_simps p3 a3 tr3 last_pending)
  have r1: "run C [(t1, Settle i (PairResp r)),
           (t2, Settle ?j (LightsResp (Body ls))),
           (t3, Settle ?j (StorageInitResp (Resolves ()))),
           (t4, Settle ?j (StorageGetResp (Resolves known)))] s = Some s4"
    using st1 st2 st3 st4 by simp
  have r2: "username (ad s4) = u" by (simp add: a4 fL)
  have r3: "trace s4 = trace s @ [?get] @ map DeviceAdded ds @
      [StorageInit, StorageGetItem KNOWN_BRIDGE_USERNAMES,
       StorageSetItem KNOWN_BRIDGE_USERNAMES (merge known (bridgeId (ad s)) u)]"
    by (simp add: tr4 trL tc1)
  have r4: "pend s4 = take i (pend s) @ drop (Suc i) (pend s) @ [StorageSetWait]"
    using p4 by simp
  show ?thesis
    by (rule exI[of _ s4], rule exI[of _ ds]) (intro conjI r1 r2 r3 r4)
qed

theorem pairing_success_order_witness:
  "\<exists>s4. run sampleRuntime (tl pairingRun) (startPairing 1000 30 idleSys) = Some s4 \<and>
      username (ad s4) = Username ''u1'' \<and>
      pend s4 = [StorageSetWait] \<and>
      last (trace s4) = StorageSetItem KNOWN_BRIDGE_USERNAMES
                          [''b0'' \<mapsto> Username ''u0'', ''b1'' \<mapsto> Username ''u1'']"
proof -
  let ?s = "startPairing 1000 30 idleSys"
  have h1: "0 < length (pend ?s)" by (simp add: examples handlers)
  have h2: "pend ?s ! 0 = PairFetch" by (simp add: examples handlers)
  have h3: "pairReply (Body (Arr [MsgSuccess (Username ''u1'')])) = Inr (Username ''u1'')"
    by (simp add: pairReply_def)
  have h4: "truthy (Username ''u1'')" by simp
  have h5: "\<forall>x \<in> set [(''1'', Some redLamp)]. snd x \<noteq> None" by simp
  have len: "length (pend ?s) - 1 = 0" by (simp add: examples handlers)
  have b: "bridgeId (ad ?s) = ''b1''" by (simp add: examples handlers)
  from pairing_success_order [OF h1 h2 h3 h4 h5, of sampleRuntime 1100 1200 1300 1400
      "Some [''b0'' \<mapsto> Username ''u0'']"]
  obtain s4 ds where
    "run sampleRuntime (tl pairingRun) ?s = Some s4" "username (ad s4) = Username ''u1''"
    "trace s4 = trace ?s @
      [HttpGet (''http://'' @ bridgeIp (ad ?s) @ ''/api/'' @ toString (Username ''u1'') @ ''/lights'')] @
      map DeviceAdded ds @
      [StorageInit, StorageGetItem KNOWN_BRIDGE_USERNAMES,
       StorageSetItem KNOWN_BRIDGE_USERNAMES
         (merge (Some [''b0'' \<mapsto> Username ''u0'']) (bridgeId (ad ?s)) (Username ''u1''))]"
    "pend s4 = take 0 (pend ?s) @ drop (Suc 0) (pend ?s) @ [StorageSetWait]"
    unfolding len pairingRun_def by auto
  then show ?thesis by (simp add: b merge_def) (simp add: examples handlers)
qed

text \<open>
  The claim C3 fails on the code: after the answer of the bridge the username is set and
  the lights are requested while nothing has been written to the storage; the write is
  the last effect of the chain, after the device was created.
\<close>

theorem pairing_success_order_counterexample:
  "map_option (\<lambda>s. (username (ad s), filter isSetItem (trace s), last (trace s)))
     (run sampleRuntime (bootIdle @ take 2 pairingRun) freshAdapter) =
     Some (Username ''u1'', [], HttpGet ''http://10.0.0.2/api/u1/lights'') \<and>
   map_option trace (run sampleRuntime (bootIdle @ pairingRun) freshAdapter) =
     Some [AddAdapter, StorageInit, StorageGetItem KNOWN_BRIDGE_USERNAMES,
           ConsoleError (Message ''no known bridges''),
           HttpPost ''http://10.0.0.2/api'' PAIR_BODY,
           HttpGet ''http://10.0.0.2/api/u1/lights'',
           DeviceAdded redDevice,
           StorageInit, StorageGetItem KNOWN_BRIDGE_USERNAMES,
           StorageSetItem KNOWN_BRIDGE_USERNAMES
             [''b0'' \<mapsto> Username ''u0'', ''b1'' \<mapsto> Username ''u1'']]"
  by (simp add: examples handlers)

text \<open>
  C4. When a username is already known, \<open>pair\<close> resolves with it at once; starting a
  pairing session (and every retry) issues no registration request, only the request that
  lists the lights.
\<close>

theorem known_credential_short_circuit:
  assumes "truthy (username (ad s))"
  shows "pair s = Some (username (ad s)) \<and>
    trace (startPairing now timeoutSeconds s) =
      trace s @ [HttpGet (''http://'' @ bridgeIp (ad s) @ ''/api/'' @ toString (username (ad s)) @ ''/lights'')] \<and>
    pend (startPairing now timeoutSeconds s) = pend s @ [LightsFetch Pairing] \<and>
    username (ad (startPairing now timeoutSeconds s)) = username (ad s) \<and>
    registrations (trace (startPairing now timeoutSeconds s)) = registrations (trace s) \<and>
    registrations (trace (attemptPairing now s)) = registrations (trace s)"
  using assms
  by (simp add: pair_def startPairing_def attemptPairing_def onPaired_def discoverLights_def
      emit_def await_def registrations_def)

theorem known_credential_short_circuit_witness:
  "truthy (username (ad pairedSys)) \<and>
   pair pairedSys = Some (Username ''u1'') \<and>
   trace (startPairing 5000 30 pairedSys) =
     trace pairedSys @ [HttpGet ''http://10.0.0.2/api/u1/lights''] \<and>
   registrations (trace (startPairing 5000 30 pairedSys)) = 0"
proof -
  have h: "truthy (username (ad pairedSys))" by (simp add: pairedSys_def)
  from known_credential_short_circuit [OF h, of 5000 30] h show ?thesis
    by (simp add: pairedSys_def registrations_def)
qed

text \<open>
  C5. Two invocations of \<open>discoverLights\<close> with the same answer of the bridge: each
  issues its one request; the handler of the first answer leaves every light of the
  registry as it is and constructs, for every id of the answer that is not tracked (it
  is not in the registry and is not a name that every object inherits), the device of
  that light, once, and stores it in the registry (when no entry of the answer makes
  the constructor throw); the handler of the second answer constructs no device and
  leaves the registry as the first one left it. So after both invocations a light that
  was in the registry has not been constructed again, and a light that was new has been
  constructed exactly once.
\<close>

theorem discover_twice:
  assumes "truthy (username (ad s))"
  shows "\<exists>sA sB sC sD.
    discoverLights og s = Inr sA \<and>
    step C t1 (Settle (length (pend s)) (LightsResp (Body ls))) sA = Some sB \<and>
    discoverLights og2 sB = Inr sC \<and>
    step C t2 (Settle (length (pend sB)) (LightsResp (Body ls))) sC = Some sD \<and>
    issued s sA = [HttpGet (''http://'' @ bridgeIp (ad s) @ ''/api/'' @
                             toString (username (ad s)) @ ''/lights'')] \<and>
    (\<forall>k d. lights (ad s) k = Some d \<longrightarrow>
       lights (ad sB) k = Some d \<and> timesCreated k (trace sD) = timesCreated k (trace s)) \<and>
    ((\<forall>x \<in> set ls. snd x \<noteq> None) \<longrightarrow>
       (\<forall>k l. map_of ls k = Some (Some l) \<and> \<not> tracked (lights (ad s)) k \<longrightarrow>
          lights (ad sB) k =
            Some (PhilipsHueDevice C (''philips-hue-'' @ bridgeId (ad s) @ ''-'' @ k) k l) \<and>
          timesCreated k (trace sB) = timesCreated k (trace s) + 1 \<and>
          timesCreated k (trace sD) = timesCreated k (trace s) + 1)) \<and>
    lights (ad sD) = lights (ad sB) \<and>
    created (trace sD) = created (trace sB)"
proof -
  let ?g = "HttpGet (''http://'' @ bridgeIp (ad s) @ ''/api/'' @
                       toString (username (ad s)) @ ''/lights'')"
  define s' where "s' = emit ?g s"
  define sA where "sA = await (LightsFetch og) s'"
  define sB where "sB = lightsReply C og t1 (Body ls) s'"
  let ?g2 = "HttpGet (''http://'' @ bridgeIp (ad sB) @ ''/api/'' @
                       toString (username (ad sB)) @ ''/lights'')"
  define s'' where "s'' = emit ?g2 sB"
  define sC where "sC = await (LightsFetch og2) s''"
  define sD where "sD = lightsReply C og2 t2 (Body ls) s''"
  obtain e s1 where al: "addLights C ls s' = (e, s1)" by (cases "addLights C ls s'")
  then have s1: "s1 = snd (addLights C ls s')" by simp
  have s'_ad: "ad s' = ad s" and s'_tr: "trace s' = trace s @ [?g]" and s'_pe: "pend s' = pend s"
    by (simp_all add: s'_def emit_def)
  have s''_ad: "ad s'' = ad sB" and s''_tr: "trace s'' = trace sB @ [?g2]"
    and s''_pe: "pend s'' = pend sB"
    by (simp_all add: s''_def emit_def)
  have d1: "discoverLights og s = Inr sA"
    using assms by (simp add: discoverLights_def sA_def s'_def)
  have cA: "complete (length (pend s)) sA = s'"
    by (simp add: sA_def await_def complete_def s'_pe)
  have d2: "step C t1 (Settle (length (pend s)) (LightsResp (Body ls))) sA = Some sB"
  proof -
    have "pend sA = pend s @ [LightsFetch og]" by (simp add: sA_def await_def s'_pe)
    then have "length (pend s) < length (pend sA)" "pend sA ! length (pend s) = LightsFetch og"
      by simp_all
    then show ?thesis by (simp add: cA sB_def)
  qed
  note rB = lightsReply_devices [of C og t1 ls s', folded sB_def, unfolded s1 [symmetric]]
  have lB: "lights (ad sB) = lights (ad s1)" and crB: "created (trace sB) = created (trace s1)"
    and uB: "username (ad sB) = username (ad s)"
    using rB s'_ad by simp_all
  have d3: "discoverLights og2 sB = Inr sC"
    using assms uB by (simp add: discoverLights_def sC_def s''_def)
  have cC: "complete (length (pend sB)) sC = s''"
    by (simp add: sC_def await_def complete_def s''_pe)
  have d4: "step C t2 (Settle (length (pend sB)) (LightsResp (Body ls))) sC = Some sD"
  proof -
    have "pend sC = pend sB @ [LightsFetch og2]" by (simp add: sC_def await_def s''_pe)
    then have "length (pend sB) < length (pend sC)" "pend sC ! length (pend sB) = LightsFetch og2"
      by simp_all
    then show ?thesis by (simp add: cC sD_def)
  qed
  have "lights (ad s'') = lights (ad s1)" using s''_ad lB by simp
  from addLights_stable [OF al this] have st: "addLights C ls s'' = (e, s'')" .
  note rD = lightsReply_devices [of C og2 t2 ls s'', folded sD_def]
  have lD: "lights (ad sD) = lights (ad sB)"
    using rD st s''_ad by simp
  have crD: "created (trace sD) = created (trace sB)"
    using rD st s''_tr by (simp add: created_append)
  have d5: "issued s sA = [?g]"
    by (simp add: issued_def sA_def await_def s'_tr)
  have tc': "timesCreated k (trace s') = timesCreated k (trace s)" for k
    by (simp add: s'_tr timesCreated_append) (simp add: timesCreated_def)
  have tcD: "timesCreated k (trace sD) = timesCreated k (trace s1)" for k
    using crD crB by (simp add: timesCreated_def)
  have tcB: "timesCreated k (trace sB) = timesCreated k (trace s1)" for k
    using crB by (simp add: timesCreated_def)
  have kept: "lights (ad sB) k = Some d \<and> timesCreated k (trace sD) = timesCreated k (trace s)"
    if "lights (ad s) k = Some d" for k d
  proof -
    from that have l': "lights (ad s') k = Some d" by (simp add: s'_ad)
    then have "lights (ad s1) k = Some d" unfolding s1 by (rule addLights_keeps)
    moreover from l' have "tracked (lights (ad s')) k" by (simp add: tracked_def)
    then have "timesCreated k (trace s1) = timesCreated k (trace s')"
      unfolding s1 by (rule timesCreated_tracked)
    ultimately show ?thesis by (simp add: lB tcD tc')
  qed
  have new: "lights (ad sB) k =
            Some (PhilipsHueDevice C (''philips-hue-'' @ bridgeId (ad s) @ ''-'' @ k) k l) \<and>
          timesCreated k (trace sB) = timesCreated k (trace s) + 1 \<and>
          timesCreated k (trace sD) = timesCreated k (trace s) + 1"
    if wf: "\<forall>x \<in> set ls. snd x \<noteq> None"
      and m: "map_of ls k = Some (Some l)" and nt: "\<not> tracked (lights (ad s)) k" for k l
  proof -
    have "e = None" using addLights_ok [OF wf, of C s'] al by simp
    with al have al': "addLights C ls s' = (None, s1)" by simp
    have nt': "\<not> tracked (lights (ad s')) k" using nt by (simp add: s'_ad)
    from addLights_registers [OF al' nt' m]
    have "lights (ad s1) k =
        Some (PhilipsHueDevice C (''philips-hue-'' @ bridgeId (ad s) @ ''-'' @ k) k l)"
      by (simp add: s'_ad)
    moreover have "k \<in> fst ` set ls" using m by (rule map_of_fst)
    with timesCreated_new [OF al' nt'] have "timesCreated k (trace s1) = timesCreated k (trace s') + 1"
      by simp
    ultimately show ?thesis by (simp add: lB tcB tcD tc')
  qed
  show ?thesis
    apply (rule exI [of _ sA], rule exI [of _ sB], rule exI [of _ sC], rule exI [of _ sD])
    apply (intro conjI d1 d2 d3 d4 d5 lD crD)
    using kept new by blast+
qed

theorem discover_twice_witness:
  "truthy (username (ad pairedSys)) \<and>
   (\<exists>sA sB sC sD.
      discoverLights Pairing pairedSys = Inr sA \<and>
      step sampleRuntime 5000 (Settle 0 (LightsResp (Body twoLamps))) sA = Some sB \<and>
      discoverLights Pairing sB = Inr sC \<and>
      step sampleRuntime 6000 (Settle (length (pend sB)) (LightsResp (Body twoLamps))) sC = Some sD \<and>
      lights (ad sB) ''1'' = Some redDevice \<and>
      lights (ad sB) ''2'' =
        Some (PhilipsHueDevice sampleRuntime ''philips-hue-b1-2'' ''2'' whiteLamp) \<and>
      timesCreated ''1'' (trace sD) = 1 \<and>
      timesCreated ''2'' (trace sD) = 1 \<and>
      lights (ad sD) = lights (ad sB))"
proof -
  have h: "truthy (username (ad pairedSys))" by (simp add: pairedSys_def)
  have wf: "\<forall>x \<in> set twoLamps. snd x \<noteq> None" by (simp add: twoLamps_def)
  have l1: "lights (ad pairedSys) ''1'' = Some redDevice" by (simp add: pairedSys_def)
  have m2: "map_of twoLamps ''2'' = Some (Some whiteLamp) \<and>
      \<not> tracked (lights (ad pairedSys)) ''2''"
    by (simp add: twoLamps_def pairedSys_def tracked_def inherited_def)
  have c: "timesCreated ''1'' (trace pairedSys) = 1" "timesCreated ''2'' (trace pairedSys) = 0"
    by (simp_all add: timesCreated_def pairedSys_def redDevice_def)
  have b: "bridgeId (ad pairedSys) = ''b1''" "length (pend pairedSys) = 0"
    by (simp_all add: pairedSys_def)
  from discover_twice [OF h, of Pairing sampleRuntime 5000 twoLamps Pairing 6000]
  obtain sA sB sC sD where
    d1: "discoverLights Pairing pairedSys = Inr sA"
    and d2: "step sampleRuntime 5000 (Settle (length (pend pairedSys)) (LightsResp (Body twoLamps))) sA =
          Some sB"
    and d3: "discoverLights Pairing sB = Inr sC"
    and d4: "step sampleRuntime 6000 (Settle (length (pend sB)) (LightsResp (Body twoLamps))) sC =
          Some sD"
    and kept: "\<forall>k d. lights (ad pairedSys) k = Some d \<longrightarrow>
       lights (ad sB) k = Some d \<and>
       timesCreated k (trace sD) = timesCreated k (trace pairedSys)"
    and new: "(\<forall>x \<in> set twoLamps. snd x \<noteq> None) \<longrightarrow>
       (\<forall>k l. map_of twoLamps k = Some (Some l) \<and> \<not> tracked (lights (ad pairedSys)) k \<longrightarrow>
          lights (ad sB) k =
            Some (PhilipsHueDevice sampleRuntime
                    (''philips-hue-'' @ bridgeId (ad pairedSys) @ ''-'' @ k) k l) \<and>
          timesCreated k (trace sB) = timesCreated k (trace pairedSys) + 1 \<and>
          timesCreated k (trace sD) = timesCreated k (trace pairedSys) + 1)"
    and same: "lights (ad sD) = lights (ad sB)"
    by blast
  from kept l1 c have k1: "lights (ad sB) ''1'' = Some redDevice" "timesCreated ''1'' (trace sD) = 1"
    by simp_all
  from new wf m2 have "lights (ad sB) ''2'' =
            Some (PhilipsHueDevice sampleRuntime
                    (''philips-hue-'' @ bridgeId (ad pairedSys) @ ''-'' @ ''2'') ''2'' whiteLamp) \<and>
          timesCreated ''2'' (trace sD) = timesCreated ''2'' (trace pairedSys) + 1"
    by blast
  then have k2: "lights (ad sB) ''2'' =
        Some (PhilipsHueDevice sampleRuntime ''philips-hue-b1-2'' ''2'' whiteLamp)"
      "timesCreated ''2'' (trace sD) = 1"
    using b c by simp_all
  from d2 b have d2': "step sampleRuntime 5000 (Settle 0 (LightsResp (Body twoLamps))) sA = Some sB"
    by simp
  show ?thesis
    apply (rule conjI [OF h])
    apply (rule exI [of _ sA], rule exI [of _ sB], rule exI [of _ sC], rule exI [of _ sD])
    apply (intro conjI d1 d2' d3 d4 k1 k2 same)
    done
qed

text \<open>
  C6. Whatever the answer to a state update is (the request fails, reading the body fails,
  or the body is read), the promise of \<open>sendProperties\<close> is fulfilled, never rejected; a
  failure is logged and the adapter, with every cached property value, stays as it was.
  In particular the value that \<open>setValue\<close> cached before the push is still cached.
\<close>

theorem push_failure_is_swallowed:
  assumes "i < length (pend s)" and "pend s ! i = PutFetch"
  shows "(\<exists>x. fst (putReply r (complete i s)) = Fulfilled x) \<and>
    step C now (Settle i (PutResp r)) s = Some (snd (putReply r (complete i s))) \<and>
    ad (snd (putReply r (complete i s))) = ad s \<and>
    pend (snd (putReply r (complete i s))) = take i (pend s) @ drop (Suc i) (pend s) \<and>
    trace (snd (putReply r (complete i s))) =
      trace s @ (case r of FetchFailed \<Rightarrow> [ConsoleError FetchError]
                         | BodyFailed \<Rightarrow> [ConsoleError BodyError]
                         | Body t \<Rightarrow> []) \<and>
    (setValue C k pname v s0 = Some s \<longrightarrow>
       (\<exists>d. lights (ad (snd (putReply r (complete i s)))) k = Some d \<and>
            properties d pname = Some v))"
proof -
  have a: "ad (snd (putReply r (complete i s))) = ad s"
    by (cases r) (simp_all add: putReply_def putText_def catchLog_def emit_def complete_def)
  have "\<exists>d. lights (ad s) k = Some d \<and> properties d pname = Some v"
    if "setValue C k pname v s0 = Some s"
    using that
    by (auto simp: setValue_def setCachedValue_def sendProperties_def emit_def await_def Let_def
        split: option.splits if_splits notification.splits)
  with a have "setValue C k pname v s0 = Some s \<longrightarrow>
       (\<exists>d. lights (ad (snd (putReply r (complete i s)))) k = Some d \<and>
            properties d pname = Some v)" by simp
  moreover have "(\<exists>x. fst (putReply r (complete i s)) = Fulfilled x) \<and>
    step C now (Settle i (PutResp r)) s = Some (snd (putReply r (complete i s))) \<and>
    pend (snd (putReply r (complete i s))) = take i (pend s) @ drop (Suc i) (pend s) \<and>
    trace (snd (putReply r (complete i s))) =
      trace s @ (case r of FetchFailed \<Rightarrow> [ConsoleError FetchError]
                         | BodyFailed \<Rightarrow> [ConsoleError BodyError]
                         | Body t \<Rightarrow> [])"
    using assms by (cases r) (simp_all add: putReply_def putText_def catchLog_def emit_def complete_def)
  ultimately show ?thesis using a by simp
qed

theorem push_failure_is_swallowed_witness:
  "setValue sampleRuntime ''1'' ''on'' (JBool True) pairedSys = Some pushingSys \<and>
   pend pushingSys ! 0 = PutFetch \<and>
   (\<exists>x. fst (putReply FetchFailed (complete 0 pushingSys)) = Fulfilled x) \<and>
   step sampleRuntime 6000 (Settle 0 (PutResp FetchFailed)) pushingSys =
     Some (snd (putReply FetchFailed (complete 0 pushingSys))) \<and>
   trace (snd (putReply FetchFailed (complete 0 pushingSys))) =
     trace pushingSys @ [ConsoleError FetchError] \<and>
   (\<exists>d. lights (ad (snd (putReply FetchFailed (complete 0 pushingSys)))) ''1'' = Some d \<and>
        properties d ''on'' = Some (JBool True))"
proof -
  have h0: "setValue sampleRuntime ''1'' ''on'' (JBool True) pairedSys = Some pushingSys"
    by (simp add: examples pushingSys_def handlers)
  have h1: "0 < length (pend pushingSys)" by (simp add: pushingSys_def)
  have h2: "pend pushingSys ! 0 = PutFetch" by (simp add: pushingSys_def)
  note t = push_failure_is_swallowed [OF h1 h2, of FetchFailed sampleRuntime 6000 "''1''" "''on''"
      "JBool True" pairedSys]
  from t have c1: "\<exists>x. fst (putReply FetchFailed (complete 0 pushingSys)) = Fulfilled x"
    by blast
  from t have c2: "step sampleRuntime 6000 (Settle 0 (PutResp FetchFailed)) pushingSys =
     Some (snd (putReply FetchFailed (complete 0 pushingSys)))"
    by blast
  from t have "trace (snd (putReply FetchFailed (complete 0 pushingSys))) =
     trace pushingSys @ (case FetchFailed :: string fetched of
                           FetchFailed \<Rightarrow> [ConsoleError FetchError]
                         | BodyFailed \<Rightarrow> [ConsoleError BodyError]
                         | Body t \<Rightarrow> [])"
    by blast
  then have c3: "trace (snd (putReply FetchFailed (complete 0 pushingSys))) =
     trace pushingSys @ [ConsoleError FetchError]"
    by simp
  from t h0 have c4: "\<exists>d. lights (ad (snd (putReply FetchFailed (complete 0 pushingSys)))) ''1'' = Some d \<and>
        properties d ''on'' = Some (JBool True)"
    by blast
  show ?thesis by (intro conjI h0 h2 c1 c2 c3 c4)
qed

text \<open>
  C7. For a change of \<open>on\<close>, \<open>notifyPropertyChanged\<close> sends \<open>{on, hue, sat, bri}\<close>, and
  for a change of \<open>color\<close> it sends \<open>{hue, sat, bri}\<close>; each of \<open>hue\<close>, \<open>sat\<close>, \<open>bri\<close> is
  \<open>Math.floor\<close> of the component of the stored colour, multiplied and divided in double
  arithmetic as the source writes it. Through \<open>setValue\<close>: setting \<open>on\<close> pushes exactly
  \<open>{on, hue, sat, bri}\<close>, with the new value of \<open>on\<close> and the colour that the light
  currently stores; setting \<open>color\<close> pushes exactly \<open>{hue, sat, bri}\<close> of the new colour,
  without \<open>on\<close>; any other property name only warns, and nothing is sent to the bridge.
  The stored and the new colour are values that the colour package decodes.
\<close>

theorem property_change_payload:
  assumes "lights (ad s) k = Some d"
    and "properties d ''on'' = Some x"
    and "properties d ''color'' = Some c"
    and "parse C c = Some old"
    and "parse C v = Some new"
  shows "notifyPropertyChanged C d ''on'' =
      Send (lightId d)
        [(''on'', x),
         (''hue'', JNum \<lfloor>ddiv C (dmul C (color_hue old) 65535) 360\<rfloor>),
         (''sat'', JNum \<lfloor>ddiv C (dmul C (color_saturationv old) 255) 100\<rfloor>),
         (''bri'', JNum \<lfloor>ddiv C (dmul C (color_value old) 255) 100\<rfloor>)] \<and>
    notifyPropertyChanged C d ''color'' =
      Send (lightId d)
        [(''hue'', JNum \<lfloor>ddiv C (dmul C (color_hue old) 65535) 360\<rfloor>),
         (''sat'', JNum \<lfloor>ddiv C (dmul C (color_saturationv old) 255) 100\<rfloor>),
         (''bri'', JNum \<lfloor>ddiv C (dmul C (color_value old) 255) 100\<rfloor>)] \<and>
    map_option trace (setValue C k ''on'' (JBool b) s) =
      Some (trace s @
        [HttpPut (''http://'' @ bridgeIp (ad s) @ ''/api/'' @ toString (username (ad s)) @
                  ''/lights/'' @ lightId d @ ''/state'')
           [(''on'', JBool b),
            (''hue'', JNum \<lfloor>ddiv C (dmul C (color_hue old) 65535) 360\<rfloor>),
            (''sat'', JNum \<lfloor>ddiv C (dmul C (color_saturationv old) 255) 100\<rfloor>),
            (''bri'', JNum \<lfloor>ddiv C (dmul C (color_value old) 255) 100\<rfloor>)]]) \<and>
    map_option trace (setValue C k ''color'' v s) =
      Some (trace s @
        [HttpPut (''http://'' @ bridgeIp (ad s) @ ''/api/'' @ toString (username (ad s)) @
                  ''/lights/'' @ lightId d @ ''/state'')
           [(''hue'', JNum \<lfloor>ddiv C (dmul C (color_hue new) 65535) 360\<rfloor>),
            (''sat'', JNum \<lfloor>ddiv C (dmul C (color_saturationv new) 255) 100\<rfloor>),
            (''bri'', JNum \<lfloor>ddiv C (dmul C (color_value new) 255) 100\<rfloor>)]]) \<and>
    (pname \<noteq> ''on'' \<and> pname \<noteq> ''color'' \<longrightarrow>
       notifyPropertyChanged C d pname = Unknown pname \<and>
       (properties d pname \<noteq> None \<longrightarrow>
          map_option trace (setValue C k pname y s) = Some (trace s @ [ConsoleWarn pname])))"
  using assms
  by (auto simp: setValue_def setCachedValue_def notifyPropertyChanged_def sendProperties_def
      emit_def await_def Let_def)

theorem property_change_payload_witness:
  "map_option trace (setValue sampleRuntime ''1'' ''on'' (JBool True) pairedSys) =
     Some (trace pairedSys @
       [HttpPut ''http://10.0.0.2/api/u1/lights/1/state''
          [(''on'', JBool True), (''hue'', JNum 0), (''sat'', JNum 255), (''bri'', JNum 255)]]) \<and>
   map_option trace (setValue sampleRuntime ''1'' ''color'' (JStr ''#00FF00'') pairedSys) =
     Some (trace pairedSys @
       [HttpPut ''http://10.0.0.2/api/u1/lights/1/state''
          [(''hue'', JNum 21845), (''sat'', JNum 255), (''bri'', JNum 255)]]) \<and>
   notifyPropertyChanged sampleRuntime redDevice ''level'' = Unknown ''level''"
proof -
  have h1: "lights (ad pairedSys) ''1'' = Some redDevice" by (simp add: pairedSys_def)
  have h2: "properties redDevice ''on'' = Some (JBool False)" by (simp add: redDevice_def)
  have h3: "properties redDevice ''color'' = Some (JStr ''#FF0000'')" by (simp add: redDevice_def)
  have h4: "parse sampleRuntime (JStr ''#FF0000'') =
      Some \<lparr>color_hue = 0, color_saturationv = 100, color_value = 100\<rparr>"
    by (simp add: sampleRuntime_def)
  have h5: "parse sampleRuntime (JStr ''#00FF00'') =
      Some \<lparr>color_hue = 120, color_saturationv = 100, color_value = 100\<rparr>"
    by (simp add: sampleRuntime_def)
  from property_change_payload [OF h1 h2 h3 h4 h5, of True "''level''"] show ?thesis
    by (simp add: pairedSys_def redDevice_def sampleRuntime_def)
qed

text \<open>
  C8. The handler of \<open>getItem\<close> in the pairing chain writes the table that it has just
  read (the empty table when nothing was stored) with the entry of this bridge set to the
  username of the adapter: the entry of this bridge is the username, every other entry is
  as it was read. No other task writes to the storage, so every write follows a read of
  the table in the same chain.
\<close>

theorem credential_write_merges:
  assumes "i < length (pend s)" and "pend s ! i = StorageGetWait Pairing"
  shows "(\<exists>s1. step C now (Settle i (StorageGetResp (Resolves known))) s = Some s1 \<and>
      trace s1 = trace s @ [StorageSetItem KNOWN_BRIDGE_USERNAMES
                             (merge known (bridgeId (ad s)) (username (ad s)))]) \<and>
    merge known (bridgeId (ad s)) (username (ad s)) (bridgeId (ad s)) = Some (username (ad s)) \<and>
    (\<forall>b. b \<noteq> bridgeId (ad s) \<longrightarrow>
       merge known (bridgeId (ad s)) (username (ad s)) b =
         (case known of None \<Rightarrow> None | Some t \<Rightarrow> t b)) \<and>
    (\<forall>e t s' s''. step C t e s' = Some s'' \<and> filter isSetItem (issued s' s'') \<noteq> [] \<longrightarrow>
       (\<exists>j known'. e = Settle j (StorageGetResp (Resolves known')) \<and> j < length (pend s') \<and>
          pend s' ! j = StorageGetWait Pairing \<and>
          issued s' s'' = [StorageSetItem KNOWN_BRIDGE_USERNAMES
                            (merge known' (bridgeId (ad s')) (username (ad s')))]))"
proof -
  have only: "\<exists>j known'. e = Settle j (StorageGetResp (Resolves known')) \<and> j < length (pend s') \<and>
          pend s' ! j = StorageGetWait Pairing \<and>
          issued s' s'' = [StorageSetItem KNOWN_BRIDGE_USERNAMES
                            (merge known' (bridgeId (ad s')) (username (ad s')))]"
    if st: "step C t e s' = Some s''" and w: "filter isSetItem (issued s' s'') \<noteq> []"
    for e t s' s''
  proof -
    from w have "\<not> quiet s' s''" by (auto simp: quiet_def issued_def)
    with step_writes [OF st] show ?thesis by (auto simp: issued_def)
  qed
  have "\<exists>s1. step C now (Settle i (StorageGetResp (Resolves known))) s = Some s1 \<and>
      trace s1 = trace s @ [StorageSetItem KNOWN_BRIDGE_USERNAMES
                             (merge known (bridgeId (ad s)) (username (ad s)))]"
    using assms by (simp add: storageGetDone_def emit_def await_def complete_def)
  moreover have "merge known (bridgeId (ad s)) (username (ad s)) (bridgeId (ad s)) =
      Some (username (ad s))"
    by (simp add: merge_def)
  moreover have "\<forall>b. b \<noteq> bridgeId (ad s) \<longrightarrow>
       merge known (bridgeId (ad s)) (username (ad s)) b =
         (case known of None \<Rightarrow> None | Some t \<Rightarrow> t b)"
    by (simp add: merge_def split: option.splits)
  ultimately show ?thesis using only by blast
qed

theorem credential_write_merges_witness:
  "run sampleRuntime (take 4 pairingRun) idleSys = Some persistingSys \<and>
   pend persistingSys ! 0 = StorageGetWait Pairing \<and>
   (\<exists>s1. step sampleRuntime 1400
            (Settle 0 (StorageGetResp (Resolves (Some [''b0'' \<mapsto> Username ''u0''])))) persistingSys =
            Some s1 \<and>
          trace s1 = trace persistingSys @
            [StorageSetItem KNOWN_BRIDGE_USERNAMES
               [''b0'' \<mapsto> Username ''u0'', ''b1'' \<mapsto> Username ''u1'']]) \<and>
   merge (Some [''b0'' \<mapsto> Username ''u0'']) ''b1'' (Username ''u1'') ''b0'' = Some (Username ''u0'')"
proof -
  have h0: "run sampleRuntime (take 4 pairingRun) idleSys = Some persistingSys"
    by (simp add: examples persistingSys_def handlers)
  have h1: "0 < length (pend persistingSys)" by (simp add: persistingSys_def)
  have h2: "pend persistingSys ! 0 = StorageGetWait Pairing" by (simp add: persistingSys_def)
  have b: "bridgeId (ad persistingSys) = ''b1''" "username (ad persistingSys) = Username ''u1''"
    by (simp_all add: persistingSys_def)
  have m: "merge (Some [''b0'' \<mapsto> Username ''u0'']) ''b1'' (Username ''u1'') =
      [''b0'' \<mapsto> Username ''u0'', ''b1'' \<mapsto> Username ''u1'']"
    by (simp add: merge_def)
  from credential_write_merges [OF h1 h2, of sampleRuntime 1400 "Some [''b0'' \<mapsto> Username ''u0'']"]
  have "(\<exists>s1. step sampleRuntime 1400
            (Settle 0 (StorageGetResp (Resolves (Some [''b0'' \<mapsto> Username ''u0''])))) persistingSys =
            Some s1 \<and>
          trace s1 = trace persistingSys @
            [StorageSetItem KNOWN_BRIDGE_USERNAMES
               [''b0'' \<mapsto> Username ''u0'', ''b1'' \<mapsto> Username ''u1'']])"
    and "\<forall>b. b \<noteq> ''b1'' \<longrightarrow> merge (Some [''b0'' \<mapsto> Username ''u0'']) ''b1'' (Username ''u1'') b =
            [''b0'' \<mapsto> Username ''u0''] b"
    unfolding b m by simp_all
  then show ?thesis using h0 h2 by simp
qed

text \<open>
  C10. \<open>cancelPairing\<close> only clears the pairing flag: the username, the deadline, the
  registry of lights, the bridge id and the bridge address stay as they are, and the call
  issues no request to the bridge or to the storage (the trace and the pending operations
  are unchanged).
\<close>

theorem cancelPairing_frame:
  "username (ad (cancelPairing s)) = username (ad s) \<and>
   pairingEnd (ad (cancelPairing s)) = pairingEnd (ad s) \<and>
   lights (ad (cancelPairing s)) = lights (ad s) \<and>
   bridgeId (ad (cancelPairing s)) = bridgeId (ad s) \<and>
   bridgeIp (ad (cancelPairing s)) = bridgeIp (ad s) \<and>
   pairing (ad (cancelPairing s)) = False \<and>
   trace (cancelPairing s) = trace s \<and>
   pend (cancelPairing s) = pend s \<and>
   step C now CancelPairing s = Some (cancelPairing s)"
  by (simp add: cancelPairing_def)

theorem cancelPairing_frame_witness:
  "step sampleRuntime 1200 CancelPairing waitingSys = Some (cancelPairing waitingSys) \<and>
   pairing (ad (cancelPairing waitingSys)) = False \<and>
   pairingEnd (ad (cancelPairing waitingSys)) = 31000 \<and>
   trace (cancelPairing waitingSys) = trace waitingSys \<and>
   pend (cancelPairing waitingSys) = [RetryTimer]"
  using cancelPairing_frame [of waitingSys sampleRuntime 1200]
  by (simp add: waitingSys_def)

end
